theory Spec2Isabelle
  imports Main
begin

section \<open>The Socket.IO broadcast server of \<^verbatim>\<open>src/server.js\<close>\<close>

text \<open>
  The server keeps four pieces of module-level state: the flag \<^verbatim>\<open>redisConnected\<close>, the
  counters \<^verbatim>\<open>connectionStats\<close>, the map \<^verbatim>\<open>userRateLimits\<close>, and (inside the Socket.IO
  library) the sockets themselves. Every handler is a synchronous JavaScript function, so
  it is embedded as a function from the state before to the state after. \<^verbatim>\<open>Date.now()\<close> is
  an explicit argument \<open>now\<close>; a handler that reads the clock more than once reads the
  same value. Events handed to the transport are appended to the log \<open>emitted\<close>, each with
  the id of the socket it is addressed to.
\<close>

subsection \<open>Rate limiting (\<^verbatim>\<open>checkRateLimit\<close>, lines 119-154)\<close>

record rate_window =
  count :: int
  resetTime :: int

type_synonym rate_limits = "string \<rightharpoonup> rate_window"

definition CONNECTION_RATE_LIMIT :: int where
  "CONNECTION_RATE_LIMIT = 5"

definition MESSAGE_RATE_LIMIT :: int where
  "MESSAGE_RATE_LIMIT = 10"

text \<open>
  The result is the returned boolean together with the map after the call. The key is the
  template string \<^verbatim>\<open>`${userId}_${type}`\<close>.
\<close>

definition checkRateLimit :: "int \<Rightarrow> string \<Rightarrow> string \<Rightarrow> rate_limits \<Rightarrow> bool \<times> rate_limits" where
  "checkRateLimit now userId type lims =
     (let key = userId @ ''_'' @ type in
      case lims key of
        None \<Rightarrow> (True, lims(key \<mapsto> \<lparr>count = 1, resetTime = now + 60000\<rparr>))
      | Some limit \<Rightarrow>
          if now > resetTime limit
          then (True, lims(key \<mapsto> limit\<lparr>count := 1, resetTime := now + 60000\<rparr>))
          else
            let maxLimit = (if type = ''connection'' then CONNECTION_RATE_LIMIT
                            else MESSAGE_RATE_LIMIT) in
            if count limit \<ge> maxLimit then (False, lims)
            else (True, lims(key \<mapsto> limit\<lparr>count := count limit + 1\<rparr>)))"

text \<open>
  A run of calls for one key and category at the given clock readings: the answers in
  call order, and the map after the last call.
\<close>

fun checkRateLimit_calls :: "int list \<Rightarrow> string \<Rightarrow> string \<Rightarrow> rate_limits \<Rightarrow> bool list \<times> rate_limits" where
  "checkRateLimit_calls [] userId type lims = ([], lims)"
| "checkRateLimit_calls (now # ts) userId type lims =
     (case checkRateLimit now userId type lims of
        (ok, lims') \<Rightarrow>
          (case checkRateLimit_calls ts userId type lims' of
             (oks, lims'') \<Rightarrow> (ok # oks, lims'')))"

text \<open>The limit the code compares against for a category.\<close>

definition maxLimit_of :: "string \<Rightarrow> int" where
  "maxLimit_of type = (if type = ''connection'' then CONNECTION_RATE_LIMIT else MESSAGE_RATE_LIMIT)"

text \<open>
  A key opens a new window at time \<open>now\<close> when it has no entry yet or its entry's reset
  time has passed.
\<close>

definition window_fresh :: "int \<Rightarrow> string \<Rightarrow> string \<Rightarrow> rate_limits \<Rightarrow> bool" where
  "window_fresh now userId type lims =
     (case lims (userId @ ''_'' @ type) of
        None \<Rightarrow> True
      | Some limit \<Rightarrow> now > resetTime limit)"

subsection \<open>Counters (\<^verbatim>\<open>connectionStats\<close>, \<^verbatim>\<open>updateStats\<close>, lines 111-127)\<close>

record connection_stats =
  total_connections :: int
  active_connections :: int
  codes_broadcasted :: int
  messages_sent :: int
  start_time :: int

text \<open>A metric name that is not a property of the object is ignored.\<close>

definition updateStats :: "string \<Rightarrow> int \<Rightarrow> connection_stats \<Rightarrow> connection_stats" where
  "updateStats metric delta st =
     (if metric = ''total_connections'' then st\<lparr>total_connections := total_connections st + delta\<rparr>
      else if metric = ''active_connections'' then st\<lparr>active_connections := active_connections st + delta\<rparr>
      else if metric = ''codes_broadcasted'' then st\<lparr>codes_broadcasted := codes_broadcasted st + delta\<rparr>
      else if metric = ''messages_sent'' then st\<lparr>messages_sent := messages_sent st + delta\<rparr>
      else if metric = ''start_time'' then st\<lparr>start_time := start_time st + delta\<rparr>
      else st)"

subsection \<open>Sockets, events and the server state\<close>

text \<open>
  A parsed JSON object is a list of field names and values. The outbound events are the
  ones the handlers emit, with the payload fields in the order of the source:
  \<^item> \<open>Ev_error message\<close>
  \<^item> \<open>Ev_welcome server_id redis_enabled connection_time messages_per_minute connections_per_minute\<close>
  \<^item> \<open>Ev_authenticated username server_id time\<close>
  \<^item> \<open>Ev_auth_error message\<close>
  \<^item> \<open>Ev_claim_received code user time auto_claim\<close>
  \<^item> \<open>Ev_code_claimed code claimed_by time\<close>
  \<^item> \<open>Ev_recent_codes codes count\<close>
\<close>

type_synonym json = "(string \<times> string) list"

datatype event =
    Ev_error string
  | Ev_welcome string bool int int int
  | Ev_authenticated string string int
  | Ev_auth_error string
  | Ev_claim_received string "string option" int bool
  | Ev_code_claimed string "string option" int
  | Ev_recent_codes "json list" nat

text \<open>
  One socket, as the connection handler's closure sees it: \<open>sock_id\<close> is \<^verbatim>\<open>socket.id\<close>,
  \<open>clientIp\<close> and \<open>userId\<close> are the two constants of lines 158-159, \<open>socket_userId\<close> and
  \<open>authenticated\<close> are the properties the authenticate handler sets (both undefined, so
  \<open>None\<close> and falsy, on a new socket), \<open>rooms\<close> holds the rooms entered by \<^verbatim>\<open>socket.join\<close>,
  and \<open>connected\<close> tells whether the socket is still in the namespace, which is what
  \<^verbatim>\<open>socket.broadcast.emit\<close> sends to.
\<close>

record socket =
  sock_id :: string
  clientIp :: string
  userId :: string
  socket_userId :: "string option"
  authenticated :: bool
  rooms :: "string list"
  connected :: bool

text \<open>
  \<open>lRange_pending\<close> lists the sockets whose \<^verbatim>\<open>sendRecentCodes\<close> call is suspended at its
  \<^verbatim>\<open>await pubClient.lRange(...)\<close>; \<open>subscribed\<close> tells whether the \<^verbatim>\<open>bonus_codes\<close>
  subscription of \<^verbatim>\<open>setupRedisAdapter\<close> was made.
\<close>

record server =
  SERVER_ID :: "string option"
  redisConnected :: bool
  subscribed :: bool
  connectionStats :: connection_stats
  userRateLimits :: rate_limits
  sockets :: "socket list"
  emitted :: "(string \<times> event) list"
  lRange_pending :: "string list"

text \<open>The inbound payloads \<^verbatim>\<open>{username, token}\<close> and \<^verbatim>\<open>{code, auto_claim}\<close>; a field that
  is absent is \<open>None\<close>.\<close>

record authenticate_data =
  username :: "string option"
  token :: "string option"

record claim_code_data =
  code :: string
  auto_claim :: "bool option"

text \<open>\<^verbatim>\<open>process.env.SERVER_ID || 'main'\<close>: an unset or empty variable gives \<^verbatim>\<open>'main'\<close>.\<close>

definition SERVER_ID_or_main :: "server \<Rightarrow> string" where
  "SERVER_ID_or_main srv =
     (case SERVER_ID srv of None \<Rightarrow> ''main'' | Some s \<Rightarrow> if s = [] then ''main'' else s)"

text \<open>How a template string prints a property that may be undefined.\<close>

definition template_string :: "string option \<Rightarrow> string" where
  "template_string v = (case v of None \<Rightarrow> ''undefined'' | Some s \<Rightarrow> s)"

definition find_socket :: "string \<Rightarrow> server \<Rightarrow> socket option" where
  "find_socket sid srv = find (\<lambda>s. sock_id s = sid) (sockets srv)"

definition update_socket :: "string \<Rightarrow> (socket \<Rightarrow> socket) \<Rightarrow> server \<Rightarrow> server" where
  "update_socket sid f srv =
     srv\<lparr>sockets := map (\<lambda>s. if sock_id s = sid then f s else s) (sockets srv)\<rparr>"

text \<open>\<^verbatim>\<open>socket.emit\<close> hands one event to the transport for the socket itself.\<close>

definition emit :: "string \<Rightarrow> event \<Rightarrow> server \<Rightarrow> server" where
  "emit sid ev srv = srv\<lparr>emitted := emitted srv @ [(sid, ev)]\<rparr>"

text \<open>\<^verbatim>\<open>socket.broadcast.emit\<close> hands the event to every socket of the namespace but the
  sender.\<close>

definition broadcast_targets :: "string \<Rightarrow> server \<Rightarrow> string list" where
  "broadcast_targets sid srv =
     map sock_id (filter (\<lambda>s. connected s \<and> sock_id s \<noteq> sid) (sockets srv))"

definition broadcast_emit :: "string \<Rightarrow> event \<Rightarrow> server \<Rightarrow> server" where
  "broadcast_emit sid ev srv =
     srv\<lparr>emitted := emitted srv @ map (\<lambda>r. (r, ev)) (broadcast_targets sid srv)\<rparr>"

subsection \<open>Start-up (\<^verbatim>\<open>setupRedisAdapter\<close>, lines 73-108; \<^verbatim>\<open>startServer\<close>, lines 317-352)\<close>

text \<open>
  \<^verbatim>\<open>setupRedisAdapter\<close> awaits three bus operations inside one \<^verbatim>\<open>try\<close>; any of them may
  reject, and the \<^verbatim>\<open>catch\<close> only logs. The flag is set between the second and the third.
\<close>

datatype bus_outcome = Pub_connect_fails | Sub_connect_fails | Subscribe_fails | Bus_ok

definition setupRedisAdapter :: "bus_outcome \<Rightarrow> server \<Rightarrow> server" where
  "setupRedisAdapter bus srv =
     (case bus of
        Pub_connect_fails \<Rightarrow> srv
      | Sub_connect_fails \<Rightarrow> srv
      | Subscribe_fails \<Rightarrow> srv\<lparr>redisConnected := True\<rparr>
      | Bus_ok \<Rightarrow> srv\<lparr>redisConnected := True, subscribed := True\<rparr>)"

text \<open>The module-level state when the script is loaded at time \<open>now\<close>.\<close>

definition initial_server :: "string option \<Rightarrow> int \<Rightarrow> server" where
  "initial_server env_SERVER_ID now =
     \<lparr>SERVER_ID = env_SERVER_ID, redisConnected = False, subscribed = False,
      connectionStats = \<lparr>total_connections = 0, active_connections = 0, codes_broadcasted = 0,
                         messages_sent = 0, start_time = now\<rparr>,
      userRateLimits = Map.empty, sockets = [], emitted = [], lRange_pending = []\<rparr>"

text \<open>
  \<^verbatim>\<open>startServer\<close> either leaves the process listening or ends it with an exit code:
  the only exit is the \<^verbatim>\<open>catch\<close> around \<^verbatim>\<open>server.listen\<close>.
\<close>

datatype process = Listening server | Exited int

definition startServer :: "bus_outcome \<Rightarrow> bool \<Rightarrow> server \<Rightarrow> process" where
  "startServer bus listen_throws srv =
     (let srv' = setupRedisAdapter bus srv in
      if listen_throws then Exited 1 else Listening srv')"

subsection \<open>The connection handler (lines 157-183)\<close>

definition new_socket :: "string \<Rightarrow> string \<Rightarrow> string option \<Rightarrow> socket" where
  "new_socket sid address query_userId =
     \<lparr>sock_id = sid, clientIp = address,
      userId = (case query_userId of None \<Rightarrow> sid | Some u \<Rightarrow> if u = [] then sid else u),
      socket_userId = None, authenticated = False, rooms = [], connected = True\<rparr>"

text \<open>
  A refused socket gets the error event and is disconnected before any of its handlers
  is registered, so it never enters \<open>sockets\<close>.
\<close>

definition on_connection :: "int \<Rightarrow> string \<Rightarrow> string \<Rightarrow> string option \<Rightarrow> server \<Rightarrow> server" where
  "on_connection now sid address query_userId srv =
     (case checkRateLimit now address ''connection'' (userRateLimits srv) of
        (ok, lims) \<Rightarrow>
          let srv1 = srv\<lparr>userRateLimits := lims\<rparr> in
          if \<not> ok then emit sid (Ev_error ''Connection rate limit exceeded'') srv1
          else
            let srv2 = srv1\<lparr>connectionStats :=
                         updateStats ''active_connections'' 1
                           (updateStats ''total_connections'' 1 (connectionStats srv1))\<rparr>;
                srv3 = srv2\<lparr>sockets := sockets srv2 @ [new_socket sid address query_userId]\<rparr>
            in emit sid (Ev_welcome (SERVER_ID_or_main srv3) (redisConnected srv3) now
                           MESSAGE_RATE_LIMIT CONNECTION_RATE_LIMIT) srv3)"

subsection \<open>\<^verbatim>\<open>sendRecentCodes\<close> (lines 274-288)\<close>

text \<open>
  The call runs up to its \<^verbatim>\<open>await\<close> and suspends; it resumes when the bus settles the
  \<^verbatim>\<open>lRange\<close> promise. \<open>lRange\<close> is the Redis command on a stored list, for indices that
  are not negative: the elements from \<open>start\<close> to \<open>stop\<close>, both included.
\<close>

definition sendRecentCodes :: "string \<Rightarrow> server \<Rightarrow> server" where
  "sendRecentCodes sid srv = srv\<lparr>lRange_pending := lRange_pending srv @ [sid]\<rparr>"

definition lRange :: "string list \<Rightarrow> nat \<Rightarrow> nat \<Rightarrow> string list" where
  "lRange stored start stop = take (Suc stop - start) (drop start stored)"

datatype lRange_result = LRange_rejected | LRange_stored "string list"

text \<open>\<^verbatim>\<open>recentCodes.map(code => JSON.parse(code))\<close>: the first string that does not parse
  throws, which is \<open>None\<close>.\<close>

fun parse_all :: "(string \<Rightarrow> json option) \<Rightarrow> string list \<Rightarrow> json list option" where
  "parse_all JSON_parse [] = Some []"
| "parse_all JSON_parse (x # xs) =
     (case JSON_parse x of
        None \<Rightarrow> None
      | Some v \<Rightarrow> (case parse_all JSON_parse xs of None \<Rightarrow> None | Some vs \<Rightarrow> Some (v # vs)))"

definition sendRecentCodes_resume ::
    "(string \<Rightarrow> json option) \<Rightarrow> string \<Rightarrow> lRange_result \<Rightarrow> server \<Rightarrow> server" where
  "sendRecentCodes_resume JSON_parse sid res srv =
     (case res of
        LRange_rejected \<Rightarrow> srv
      | LRange_stored stored \<Rightarrow>
          let recentCodes = lRange stored 0 9 in
          if length recentCodes > 0
          then (case parse_all JSON_parse recentCodes of
                  None \<Rightarrow> srv
                | Some codes \<Rightarrow> emit sid (Ev_recent_codes codes (length recentCodes)) srv)
          else srv)"

subsection \<open>The authenticate handler (lines 196-225)\<close>

definition on_authenticate :: "int \<Rightarrow> string \<Rightarrow> authenticate_data \<Rightarrow> server \<Rightarrow> server" where
  "on_authenticate now sid data srv =
     (case find_socket sid srv of
        None \<Rightarrow> srv
      | Some socket \<Rightarrow>
          (case checkRateLimit now (userId socket) ''message'' (userRateLimits srv) of
             (ok, lims) \<Rightarrow>
               let srv1 = srv\<lparr>userRateLimits := lims\<rparr> in
               if \<not> ok then emit sid (Ev_error ''Message rate limit exceeded'') srv1
               else
                 (case username data of
                    None \<Rightarrow> emit sid (Ev_auth_error ''Invalid username'') srv1
                  | Some name \<Rightarrow>
                      if name \<noteq> [] \<and> length name \<ge> 3
                      then
                        let srv2 = update_socket sid
                                     (\<lambda>s. s\<lparr>socket_userId := Some name, authenticated := True,
                                            rooms := List.insert (''user_'' @ name) (rooms s)\<rparr>) srv1;
                            srv3 = emit sid (Ev_authenticated name (SERVER_ID_or_main srv2) now) srv2
                        in if redisConnected srv3 then sendRecentCodes sid srv3 else srv3
                      else emit sid (Ev_auth_error ''Invalid username'') srv1)))"

subsection \<open>The claim handler (lines 228-259)\<close>

definition on_claim_code :: "int \<Rightarrow> string \<Rightarrow> claim_code_data \<Rightarrow> server \<Rightarrow> server" where
  "on_claim_code now sid data srv =
     (case find_socket sid srv of
        None \<Rightarrow> srv
      | Some socket \<Rightarrow>
          if \<not> authenticated socket then emit sid (Ev_error ''Authentication required'') srv
          else
            (case checkRateLimit now (template_string (socket_userId socket)) ''message''
                    (userRateLimits srv) of
               (ok, lims) \<Rightarrow>
                 let srv1 = srv\<lparr>userRateLimits := lims\<rparr> in
                 if \<not> ok then emit sid (Ev_error ''Rate limit exceeded - slow down!'') srv1
                 else
                   let auto = (case auto_claim data of None \<Rightarrow> False | Some b \<Rightarrow> b);
                       srv2 = emit sid (Ev_claim_received (code data) (socket_userId socket) now auto) srv1;
                       srv3 = broadcast_emit sid (Ev_code_claimed (code data) (socket_userId socket) now) srv2
                   in srv3\<lparr>connectionStats := updateStats ''messages_sent'' 1 (connectionStats srv3)\<rparr>))"

subsection \<open>The disconnect handler (lines 262-265)\<close>

text \<open>
  The handler's whole body is the decrement. That the socket has left the namespace by
  then is the library's doing; it is recorded in \<open>connected\<close>.
\<close>

definition on_disconnect :: "string \<Rightarrow> server \<Rightarrow> server" where
  "on_disconnect sid srv =
     (case find_socket sid srv of
        None \<Rightarrow> srv
      | Some socket \<Rightarrow>
          let srv1 = update_socket sid (\<lambda>s. s\<lparr>connected := False\<rparr>) srv
          in srv1\<lparr>connectionStats := updateStats ''active_connections'' (- 1) (connectionStats srv1)\<rparr>)"

subsection \<open>The monitoring endpoint (lines 291-299)\<close>

record health_response =
  status :: string
  uptime :: int
  redis_connected :: bool
  stats :: connection_stats
  server_id :: string

definition health :: "int \<Rightarrow> server \<Rightarrow> health_response" where
  "health now srv =
     \<lparr>status = ''healthy'', uptime = now - start_time (connectionStats srv),
      redis_connected = redisConnected srv, stats = connectionStats srv,
      server_id = SERVER_ID_or_main srv\<rparr>"

subsection \<open>Runs of the server\<close>

text \<open>
  The transport signals the disconnect of a socket to its handler once: the signal runs
  the handler while the socket is still in the namespace, and a further signal for a
  socket that has left it (or for one that was never admitted, which has no handler)
  runs nothing.
\<close>

definition disconnect_signal :: "string \<Rightarrow> server \<Rightarrow> server" where
  "disconnect_signal sid srv =
     (case find_socket sid srv of
        None \<Rightarrow> srv
      | Some socket \<Rightarrow> if connected socket then on_disconnect sid srv else srv)"

text \<open>
  What the transport and the bus deliver to the process, each with the clock reading at
  which its handler runs. An event for a socket that has no handler registered (it was
  never admitted) is dropped, and a settled \<^verbatim>\<open>lRange\<close> resumes one suspended call.
\<close>

datatype input =
    Connection string string "string option"
  | Authenticate string authenticate_data
  | Claim_code string claim_code_data
  | Disconnect string
  | LRange_settled string lRange_result

fun step :: "(string \<Rightarrow> json option) \<Rightarrow> int \<Rightarrow> input \<Rightarrow> server \<Rightarrow> server" where
  "step JSON_parse now (Connection sid address query_userId) srv =
     on_connection now sid address query_userId srv"
| "step JSON_parse now (Authenticate sid data) srv = on_authenticate now sid data srv"
| "step JSON_parse now (Claim_code sid data) srv = on_claim_code now sid data srv"
| "step JSON_parse now (Disconnect sid) srv = disconnect_signal sid srv"
| "step JSON_parse now (LRange_settled sid res) srv =
     (if sid \<in> set (lRange_pending srv)
      then sendRecentCodes_resume JSON_parse sid res
             (srv\<lparr>lRange_pending := remove1 sid (lRange_pending srv)\<rparr>)
      else srv)"

fun run :: "(string \<Rightarrow> json option) \<Rightarrow> (int \<times> input) list \<Rightarrow> server \<Rightarrow> server" where
  "run JSON_parse [] srv = srv"
| "run JSON_parse ((now, i) # rest) srv = run JSON_parse rest (step JSON_parse now i srv)"

text \<open>
  The events one handler call hands to the transport for the socket \<open>sid\<close> itself: what
  \<open>after\<close> has emitted beyond \<open>before\<close>, addressed to \<open>sid\<close>.
\<close>

definition replies_to :: "string \<Rightarrow> server \<Rightarrow> server \<Rightarrow> event list" where
  "replies_to sid before after =
     map snd (filter (\<lambda>e. fst e = sid) (drop (length (emitted before)) (emitted after)))"

text \<open>A run of \<^verbatim>\<open>claim_code\<close> events on one socket: the replies to each, and the state
  after the last.\<close>

fun claim_code_calls ::
    "(int \<times> claim_code_data) list \<Rightarrow> string \<Rightarrow> server \<Rightarrow> event list list \<times> server" where
  "claim_code_calls [] sid srv = ([], srv)"
| "claim_code_calls ((now, data) # rest) sid srv =
     (let srv' = on_claim_code now sid data srv in
      case claim_code_calls rest sid srv' of
        (replies, srv'') \<Rightarrow> (replies_to sid srv srv' # replies, srv''))"

text \<open>The socket ids a run connects, in order. The transport gives every connection an
  id of its own.\<close>

fun connection_ids :: "(int \<times> input) list \<Rightarrow> string list" where
  "connection_ids [] = []"
| "connection_ids ((now, Connection sid address query_userId) # rest) = sid # connection_ids rest"
| "connection_ids (_ # rest) = connection_ids rest"

text \<open>The admitted connections that are not yet disconnected.\<close>

definition live_sockets :: "server \<Rightarrow> socket list" where
  "live_sockets srv = filter connected (sockets srv)"

text \<open>An authenticate payload the validation of line 205 refuses.\<close>

definition invalid_username :: "authenticate_data \<Rightarrow> bool" where
  "invalid_username data = (case username data of None \<Rightarrow> True | Some name \<Rightarrow> length name < 3)"

subsection \<open>The recent items behind the bus list\<close>








text \<open>Every socket that is in a room is authenticated.\<close>

definition rooms_need_auth :: "server \<Rightarrow> bool" where
  "rooms_need_auth srv = (\<forall>s\<in>set (sockets srv). rooms s \<noteq> [] \<longrightarrow> authenticated s)"

text \<open>The invariant of a run, with the part of the run still to come.\<close>

definition counts_live :: "server \<Rightarrow> (int \<times> input) list \<Rightarrow> bool" where
  "counts_live srv tr \<longleftrightarrow>
     active_connections (connectionStats srv) = int (length (live_sockets srv)) \<and>
     distinct (map sock_id (sockets srv)) \<and>
     distinct (connection_ids tr) \<and>
     set (connection_ids tr) \<inter> sock_id ` set (sockets srv) = {}"

section \<open>Properties of the rate limiter\<close>

lemma maxLimit_of_pos: "0 < maxLimit_of ty"
  by (simp add: maxLimit_of_def CONNECTION_RATE_LIMIT_def MESSAGE_RATE_LIMIT_def)

lemma checkRateLimit_fresh:
  assumes "window_fresh now uid ty lims"
  shows "fst (checkRateLimit now uid ty lims) = True"
    and "\<exists>w. snd (checkRateLimit now uid ty lims) (uid @ ''_'' @ ty) = Some w
           \<and> count w = 1 \<and> resetTime w = now + 60000"
    and "\<And>k. k \<noteq> uid @ ''_'' @ ty \<Longrightarrow> snd (checkRateLimit now uid ty lims) k = lims k"
  using assms
  by (auto simp: window_fresh_def checkRateLimit_def Let_def split: option.splits)

lemma checkRateLimit_live:
  assumes "lims (uid @ ''_'' @ ty) = Some w" and "now \<le> resetTime w"
  shows "checkRateLimit now uid ty lims =
           (if count w \<ge> maxLimit_of ty then (False, lims)
            else (True, lims(uid @ ''_'' @ ty \<mapsto> w\<lparr>count := count w + 1\<rparr>)))"
  using assms
  by (simp add: checkRateLimit_def Let_def maxLimit_of_def)

lemma checkRateLimit_rejected_unchanged:
  "\<not> fst (checkRateLimit now uid ty lims) \<Longrightarrow> snd (checkRateLimit now uid ty lims) = lims"
  by (auto simp: checkRateLimit_def Let_def split: option.splits if_splits)

lemma calls_Cons:
  "checkRateLimit_calls (t # ts) uid ty lims =
     (fst (checkRateLimit t uid ty lims) #
        fst (checkRateLimit_calls ts uid ty (snd (checkRateLimit t uid ty lims))),
      snd (checkRateLimit_calls ts uid ty (snd (checkRateLimit t uid ty lims))))"
  by (simp add: case_prod_beta)

lemma calls_live:
  assumes "lims (uid @ ''_'' @ ty) = Some w"
    and "\<forall>t\<in>set ts. t \<le> resetTime w"
    and "count w \<le> maxLimit_of ty"
  shows "fst (checkRateLimit_calls ts uid ty lims) =
           replicate (min (length ts) (nat (maxLimit_of ty - count w))) True @
           replicate (length ts - nat (maxLimit_of ty - count w)) False"
  using assms
proof (induction ts arbitrary: lims w)
  case Nil
  then show ?case by simp
next
  case (Cons t ts)
  have live: "t \<le> resetTime w" using Cons.prems(2) by simp
  show ?case
  proof (cases "count w \<ge> maxLimit_of ty")
    case True
    then have eq: "count w = maxLimit_of ty" using Cons.prems(3) by simp
    have step: "checkRateLimit t uid ty lims = (False, lims)"
      using checkRateLimit_live[of lims uid ty w t] Cons.prems(1) live True by simp
    have "fst (checkRateLimit_calls ts uid ty lims) =
           replicate (min (length ts) (nat (maxLimit_of ty - count w))) True @
           replicate (length ts - nat (maxLimit_of ty - count w)) False"
      using Cons.IH[of lims w] Cons.prems by simp
    then show ?thesis using step eq by (simp add: calls_Cons del: checkRateLimit_calls.simps)
  next
    case False
    let ?w' = "w\<lparr>count := count w + 1\<rparr>"
    let ?lims' = "lims(uid @ ''_'' @ ty \<mapsto> ?w')"
    have step: "checkRateLimit t uid ty lims = (True, ?lims')"
      using checkRateLimit_live[of lims uid ty w t] Cons.prems(1) live False by simp
    have a: "?lims' (uid @ ''_'' @ ty) = Some ?w'" by simp
    have b: "\<forall>t\<in>set ts. t \<le> resetTime ?w'" using Cons.prems(2) by simp
    have c: "count ?w' \<le> maxLimit_of ty" using False by simp
    have ih: "fst (checkRateLimit_calls ts uid ty ?lims') =
           replicate (min (length ts) (nat (maxLimit_of ty - count ?w'))) True @
           replicate (length ts - nat (maxLimit_of ty - count ?w')) False"
      using Cons.IH[of ?lims' ?w'] a b c by blast
    have n: "nat (maxLimit_of ty - count w) = Suc (nat (maxLimit_of ty - count ?w'))"
      using False by simp
    show ?thesis using step ih n by (simp add: calls_Cons del: checkRateLimit_calls.simps)
  qed
qed

lemma calls_live_state:
  assumes "lims (uid @ ''_'' @ ty) = Some w"
    and "\<forall>t\<in>set ts. t \<le> resetTime w"
  shows "\<exists>w'. snd (checkRateLimit_calls ts uid ty lims) (uid @ ''_'' @ ty) = Some w'
           \<and> resetTime w' = resetTime w"
  using assms
proof (induction ts arbitrary: lims w)
  case Nil
  then show ?case by simp
next
  case (Cons t ts)
  have live: "t \<le> resetTime w" using Cons.prems(2) by simp
  note step = checkRateLimit_live[of lims uid ty w t]
  show ?case
  proof (cases "count w \<ge> maxLimit_of ty")
    case True
    then have "checkRateLimit t uid ty lims = (False, lims)"
      using step Cons.prems(1) live by simp
    then show ?thesis
      using Cons.IH[of lims w] Cons.prems by (simp add: calls_Cons del: checkRateLimit_calls.simps)
  next
    case False
    let ?w' = "w\<lparr>count := count w + 1\<rparr>"
    let ?lims' = "lims(uid @ ''_'' @ ty \<mapsto> ?w')"
    have "checkRateLimit t uid ty lims = (True, ?lims')"
      using step Cons.prems(1) live False by simp
    moreover have "\<exists>w'. snd (checkRateLimit_calls ts uid ty ?lims') (uid @ ''_'' @ ty) = Some w'
           \<and> resetTime w' = resetTime ?w'"
    proof -
      have a: "?lims' (uid @ ''_'' @ ty) = Some ?w'" by simp
      have b: "\<forall>t\<in>set ts. t \<le> resetTime ?w'" using Cons.prems(2) by simp
      show ?thesis by (rule Cons.IH[of ?lims' ?w', OF a b])
    qed
    ultimately show ?thesis
      by (simp add: calls_Cons del: checkRateLimit_calls.simps)
  qed
qed

lemma calls_fresh_budget:
  assumes fresh: "window_fresh t0 uid ty lims"
    and len: "length ts = nat (maxLimit_of ty)"
    and within: "\<forall>t\<in>set ts. t \<le> t0 + 60000"
  shows "fst (checkRateLimit_calls (t0 # ts) uid ty lims) =
           replicate (nat (maxLimit_of ty)) True @ [False]"
    and "\<exists>w'. snd (checkRateLimit_calls (t0 # ts) uid ty lims) (uid @ ''_'' @ ty) = Some w'
           \<and> resetTime w' = t0 + 60000"
proof -
  let ?lims1 = "snd (checkRateLimit t0 uid ty lims)"
  obtain w where w: "?lims1 (uid @ ''_'' @ ty) = Some w" "count w = 1" "resetTime w = t0 + 60000"
    using checkRateLimit_fresh(2)[OF fresh] by blast
  have first: "fst (checkRateLimit t0 uid ty lims) = True"
    using checkRateLimit_fresh(1)[OF fresh] .
  have b: "\<forall>t\<in>set ts. t \<le> resetTime w" using within w(3) by simp
  have c: "count w \<le> maxLimit_of ty" using w(2) maxLimit_of_pos[of ty] by simp
  have rest: "fst (checkRateLimit_calls ts uid ty ?lims1) =
           replicate (min (length ts) (nat (maxLimit_of ty - count w))) True @
           replicate (length ts - nat (maxLimit_of ty - count w)) False"
    using calls_live[of ?lims1 uid ty w ts] w(1) b c by blast
  have pos: "0 < maxLimit_of ty" by (rule maxLimit_of_pos)
  have m: "min (length ts) (nat (maxLimit_of ty - count w)) = nat (maxLimit_of ty) - 1"
    using len w(2) pos by (simp add: nat_diff_distrib')
  have r: "length ts - nat (maxLimit_of ty - count w) = 1"
    using len w(2) pos by (simp add: nat_diff_distrib')
  have "True # replicate (nat (maxLimit_of ty) - 1) True = replicate (nat (maxLimit_of ty)) True"
    using pos by (metis Suc_pred' replicate_Suc zero_less_nat_eq)
  then show "fst (checkRateLimit_calls (t0 # ts) uid ty lims) =
           replicate (nat (maxLimit_of ty)) True @ [False]"
    using first rest m r by (simp add: calls_Cons del: checkRateLimit_calls.simps)
  show "\<exists>w'. snd (checkRateLimit_calls (t0 # ts) uid ty lims) (uid @ ''_'' @ ty) = Some w'
           \<and> resetTime w' = t0 + 60000"
    using calls_live_state[of ?lims1 uid ty w ts] w(1) b w(3)
    by (simp add: calls_Cons del: checkRateLimit_calls.simps)
qed

lemma checkRateLimit_expired:
  assumes "lims (uid @ ''_'' @ ty) = Some w" and "now > resetTime w"
  shows "checkRateLimit now uid ty lims =
           (True, lims(uid @ ''_'' @ ty \<mapsto> \<lparr>count = 1, resetTime = now + 60000\<rparr>))"
  using assms by (cases w) (simp add: checkRateLimit_def Let_def)

text \<open>
  Claim C1. Take any key \<open>k\<close> and category \<open>c\<close> whose window opens with the call at
  \<open>t0\<close>, and let \<open>L\<close> be the category's limit (5 for \<^verbatim>\<open>'connection'\<close>, 10 for
  \<^verbatim>\<open>'message'\<close>). Of \<open>L + 1\<close> calls made before the window's reset time has passed, the
  first \<open>L\<close> return true and the last returns false. A call after the reset time returns
  true again and leaves a fresh window: count 1, reset time 60 seconds after that call.
\<close>

theorem rate_limit_window:
  assumes "window_fresh t0 k c lims"
    and "length ts = nat (maxLimit_of c)"
    and "\<forall>t\<in>set ts. t \<le> t0 + 60000"
    and "t' > t0 + 60000"
  shows "maxLimit_of ''connection'' = 5 \<and> maxLimit_of ''message'' = 10 \<and>
         fst (checkRateLimit_calls (t0 # ts) k c lims) = replicate (nat (maxLimit_of c)) True @ [False] \<and>
         fst (checkRateLimit t' k c (snd (checkRateLimit_calls (t0 # ts) k c lims))) = True \<and>
         snd (checkRateLimit t' k c (snd (checkRateLimit_calls (t0 # ts) k c lims))) (k @ ''_'' @ c)
           = Some \<lparr>count = 1, resetTime = t' + 60000\<rparr>"
proof -
  let ?after = "snd (checkRateLimit_calls (t0 # ts) k c lims)"
  obtain w' where w': "?after (k @ ''_'' @ c) = Some w'" "resetTime w' = t0 + 60000"
    using calls_fresh_budget(2)[OF assms(1,2,3)] by blast
  have late: "checkRateLimit t' k c ?after =
           (True, ?after(k @ ''_'' @ c \<mapsto> \<lparr>count = 1, resetTime = t' + 60000\<rparr>))"
    using checkRateLimit_expired[of ?after k c w' t'] w' assms(4) by simp
  have limits: "maxLimit_of ''connection'' = 5 \<and> maxLimit_of ''message'' = 10"
    by (simp add: maxLimit_of_def CONNECTION_RATE_LIMIT_def MESSAGE_RATE_LIMIT_def)
  show ?thesis
    using limits calls_fresh_budget(1)[OF assms(1,2,3)] late by simp
qed

theorem rate_limit_window_witness:
  "window_fresh 0 ''10.0.0.7'' ''connection'' Map.empty \<and>
   fst (checkRateLimit_calls [0, 1, 2, 3, 4, 60000] ''10.0.0.7'' ''connection'' Map.empty)
     = [True, True, True, True, True, False] \<and>
   fst (checkRateLimit 60001 ''10.0.0.7'' ''connection''
          (snd (checkRateLimit_calls [0, 1, 2, 3, 4, 60000] ''10.0.0.7'' ''connection'' Map.empty))) = True \<and>
   snd (checkRateLimit 60001 ''10.0.0.7'' ''connection''
          (snd (checkRateLimit_calls [0, 1, 2, 3, 4, 60000] ''10.0.0.7'' ''connection'' Map.empty)))
       ''10.0.0.7_connection'' = Some \<lparr>count = 1, resetTime = 120001\<rparr>"
proof -
  have fresh: "window_fresh 0 ''10.0.0.7'' ''connection'' Map.empty"
    by (simp add: window_fresh_def)
  have len: "length [1, 2, 3, 4, 60000 :: int] = nat (maxLimit_of ''connection'')"
    by (simp add: maxLimit_of_def CONNECTION_RATE_LIMIT_def)
  have within: "\<forall>t\<in>set [1, 2, 3, 4, 60000 :: int]. t \<le> 0 + 60000" by simp
  have late: "(60001 :: int) > 0 + 60000" by simp
  show ?thesis
    using rate_limit_window[OF fresh len within late] fresh
    by (simp add: maxLimit_of_def CONNECTION_RATE_LIMIT_def numeral_eq_Suc)
qed

text \<open>
  Claim C2. A check that returns false leaves the whole map as it was, so the window's
  count and reset time are unchanged. The rejected window is still there and not yet
  over; once it is over, the key has its full budget again: of \<open>L + 1\<close> calls in the
  next window the first \<open>L\<close> return true.
\<close>

theorem rejected_check_keeps_window:
  assumes "\<not> fst (checkRateLimit now k c lims)"
  shows "snd (checkRateLimit now k c lims) = lims \<and>
         (\<exists>w. lims (k @ ''_'' @ c) = Some w \<and> now \<le> resetTime w \<and>
            (\<forall>t0 ts. t0 > resetTime w \<and> length ts = nat (maxLimit_of c) \<and> (\<forall>t\<in>set ts. t \<le> t0 + 60000)
               \<longrightarrow> fst (checkRateLimit_calls (t0 # ts) k c (snd (checkRateLimit now k c lims)))
                     = replicate (nat (maxLimit_of c)) True @ [False]))"
proof -
  have same: "snd (checkRateLimit now k c lims) = lims"
    using assms by (rule checkRateLimit_rejected_unchanged)
  obtain w where w: "lims (k @ ''_'' @ c) = Some w" "now \<le> resetTime w"
    using assms by (auto simp: checkRateLimit_def Let_def split: option.splits if_splits)
  have "fst (checkRateLimit_calls (t0 # ts) k c lims) = replicate (nat (maxLimit_of c)) True @ [False]"
    if "t0 > resetTime w" "length ts = nat (maxLimit_of c)" "\<forall>t\<in>set ts. t \<le> t0 + 60000" for t0 ts
  proof -
    have "window_fresh t0 k c lims" using w(1) that(1) by (simp add: window_fresh_def)
    then show ?thesis using calls_fresh_budget(1) that(2,3) by blast
  qed
  then show ?thesis using same w by auto
qed

theorem rejected_check_keeps_window_witness:
  "\<not> fst (checkRateLimit 5 ''alice'' ''message''
            [''alice_message'' \<mapsto> \<lparr>count = 10, resetTime = 60000\<rparr>]) \<and>
   snd (checkRateLimit 5 ''alice'' ''message''
            [''alice_message'' \<mapsto> \<lparr>count = 10, resetTime = 60000\<rparr>])
     = [''alice_message'' \<mapsto> \<lparr>count = 10, resetTime = 60000\<rparr>] \<and>
   fst (checkRateLimit_calls [60001, 60002, 60003, 60004, 60005, 60006, 60007, 60008, 60009, 60010, 60011]
          ''alice'' ''message''
          (snd (checkRateLimit 5 ''alice'' ''message''
            [''alice_message'' \<mapsto> \<lparr>count = 10, resetTime = 60000\<rparr>])))
     = [True, True, True, True, True, True, True, True, True, True, False]"
proof -
  let ?lims = "[''alice_message'' \<mapsto> \<lparr>count = 10, resetTime = 60000\<rparr>]"
  have rejected: "\<not> fst (checkRateLimit 5 ''alice'' ''message'' ?lims)"
    by (simp add: checkRateLimit_def MESSAGE_RATE_LIMIT_def)
  obtain w where w: "?lims (''alice'' @ ''_'' @ ''message'') = Some w"
    and budget: "\<forall>t0 ts. t0 > resetTime w \<and> length ts = nat (maxLimit_of ''message'')
                   \<and> (\<forall>t\<in>set ts. t \<le> t0 + 60000)
               \<longrightarrow> fst (checkRateLimit_calls (t0 # ts) ''alice'' ''message''
                          (snd (checkRateLimit 5 ''alice'' ''message'' ?lims)))
                     = replicate (nat (maxLimit_of ''message'')) True @ [False]"
    using rejected_check_keeps_window[OF rejected] by blast
  have reset: "resetTime w = 60000" using w by auto
  let ?ts = "[60002, 60003, 60004, 60005, 60006, 60007, 60008, 60009, 60010, 60011 :: int]"
  have "60001 > resetTime w \<and> length ?ts = nat (maxLimit_of ''message'')
          \<and> (\<forall>t\<in>set ?ts. t \<le> 60001 + 60000)"
    using reset by (simp add: maxLimit_of_def MESSAGE_RATE_LIMIT_def)
  then have "fst (checkRateLimit_calls (60001 # ?ts) ''alice'' ''message''
                    (snd (checkRateLimit 5 ''alice'' ''message'' ?lims)))
               = replicate (nat (maxLimit_of ''message'')) True @ [False]"
    using budget by blast
  then show ?thesis
    using rejected rejected_check_keeps_window[OF rejected]
    by (simp add: maxLimit_of_def MESSAGE_RATE_LIMIT_def numeral_eq_Suc)
qed

section \<open>Properties of the handlers\<close>

lemma find_socket_Some:
  "find_socket sid srv = Some socket \<Longrightarrow> sock_id socket = sid \<and> socket \<in> set (sockets srv)"
  by (auto simp: find_socket_def find_Some_iff)

lemma sockets_emit [simp]: "sockets (emit sid ev srv) = sockets srv"
  by (simp add: emit_def)

lemma sockets_broadcast_emit [simp]: "sockets (broadcast_emit sid ev srv) = sockets srv"
  by (simp add: broadcast_emit_def)

lemma sockets_sendRecentCodes [simp]: "sockets (sendRecentCodes sid srv) = sockets srv"
  by (simp add: sendRecentCodes_def)

lemma sockets_resume [simp]: "sockets (sendRecentCodes_resume p sid res srv) = sockets srv"
  by (simp add: sendRecentCodes_resume_def Let_def split: lRange_result.splits option.splits)

lemma sockets_on_claim_code [simp]: "sockets (on_claim_code now sid data srv) = sockets srv"
  by (simp add: on_claim_code_def Let_def split: option.splits prod.splits)

lemma sockets_on_connection:
  "sockets (on_connection now sid address q srv) =
     (if fst (checkRateLimit now address ''connection'' (userRateLimits srv))
      then sockets srv @ [new_socket sid address q] else sockets srv)"
  by (simp add: on_connection_def Let_def split: prod.splits)

lemma sockets_on_disconnect:
  "sockets (on_disconnect sid srv) =
     map (\<lambda>s. if sock_id s = sid then s\<lparr>connected := False\<rparr> else s) (sockets srv)"
proof (cases "find_socket sid srv")
  case None
  then have "\<forall>s\<in>set (sockets srv). sock_id s \<noteq> sid"
    by (auto simp: find_socket_def find_None_iff)
  then have "map (\<lambda>s. if sock_id s = sid then s\<lparr>connected := False\<rparr> else s) (sockets srv) = sockets srv"
    by (induction "sockets srv") (auto simp: map_idI)
  then show ?thesis using None by (simp add: on_disconnect_def)
next
  case (Some a)
  then show ?thesis by (simp add: on_disconnect_def update_socket_def Let_def)
qed

lemma sockets_on_authenticate:
  "sockets (on_authenticate now sid data srv) = sockets srv \<or>
   (\<exists>name. sockets (on_authenticate now sid data srv) =
      map (\<lambda>s. if sock_id s = sid
                then s\<lparr>socket_userId := Some name, authenticated := True,
                       rooms := List.insert (''user_'' @ name) (rooms s)\<rparr>
                else s) (sockets srv))"
  by (auto simp: on_authenticate_def update_socket_def Let_def split: option.splits prod.splits)

lemma rooms_need_auth_step:
  assumes "rooms_need_auth srv"
  shows "rooms_need_auth (step p now i srv)"
proof (cases i)
  case (Connection sid address q)
  then show ?thesis using assms
    by (auto simp: rooms_need_auth_def sockets_on_connection new_socket_def)
next
  case (Authenticate sid data)
  then show ?thesis using assms sockets_on_authenticate[of now sid data srv]
    by (auto simp: rooms_need_auth_def)
next
  case (Claim_code sid data)
  then show ?thesis using assms by (simp add: rooms_need_auth_def)
next
  case (Disconnect sid)
  then show ?thesis using assms
    by (auto simp: rooms_need_auth_def sockets_on_disconnect disconnect_signal_def split: option.splits)
next
  case (LRange_settled sid res)
  then show ?thesis using assms by (simp add: rooms_need_auth_def)
qed

lemma rooms_need_auth_run:
  "rooms_need_auth srv \<Longrightarrow> rooms_need_auth (run p tr srv)"
  by (induction tr arbitrary: srv) (auto simp: rooms_need_auth_step)

lemma on_claim_code_unauthenticated:
  assumes "find_socket sid srv = Some socket" and "\<not> authenticated socket"
  shows "on_claim_code now sid data srv = emit sid (Ev_error ''Authentication required'') srv"
  using assms by (simp add: on_claim_code_def)

lemma on_claim_code_accepted:
  assumes "find_socket sid srv = Some socket" and "authenticated socket"
    and "fst (checkRateLimit now (template_string (socket_userId socket)) ''message'' (userRateLimits srv))"
  shows "emitted (on_claim_code now sid data srv) =
           emitted srv @
           (sid, Ev_claim_received (code data) (socket_userId socket) now
                   (case auto_claim data of None \<Rightarrow> False | Some b \<Rightarrow> b)) #
           map (\<lambda>r. (r, Ev_code_claimed (code data) (socket_userId socket) now)) (broadcast_targets sid srv)"
    and "connectionStats (on_claim_code now sid data srv) =
           updateStats ''messages_sent'' 1 (connectionStats srv)"
    and "userRateLimits (on_claim_code now sid data srv) =
           snd (checkRateLimit now (template_string (socket_userId socket)) ''message'' (userRateLimits srv))"
  using assms
  by (simp_all add: on_claim_code_def Let_def emit_def broadcast_emit_def broadcast_targets_def
        case_prod_beta)

lemma on_claim_code_limited:
  assumes "find_socket sid srv = Some socket" and "authenticated socket"
    and "\<not> fst (checkRateLimit now (template_string (socket_userId socket)) ''message'' (userRateLimits srv))"
  shows "emitted (on_claim_code now sid data srv) =
           emitted srv @ [(sid, Ev_error ''Rate limit exceeded - slow down!'')]"
    and "connectionStats (on_claim_code now sid data srv) = connectionStats srv"
    and "userRateLimits (on_claim_code now sid data srv) =
           snd (checkRateLimit now (template_string (socket_userId socket)) ''message'' (userRateLimits srv))"
  using assms
  by (simp_all add: on_claim_code_def Let_def emit_def case_prod_beta)

text \<open>
  Claim C3. In every state the server reaches from start-up, whatever the bus did and
  whatever the inputs, each socket that is in a room is authenticated; a new socket is in
  no room. A \<^verbatim>\<open>claim_code\<close> event on an unauthenticated socket does nothing but hand the
  error event \<^verbatim>\<open>Authentication required\<close> to that socket: no \<^verbatim>\<open>claim_received\<close>, and the
  sockets, the rate-limit map and the counters stay as they were.
\<close>

theorem rooms_only_after_authenticate:
  assumes "find_socket sid srv = Some socket" and "\<not> authenticated socket"
  shows "rooms_need_auth (run JSON_parse tr (setupRedisAdapter bus (initial_server env_SERVER_ID t0))) \<and>
         rooms (new_socket sid' address query_userId) = [] \<and>
         on_claim_code now sid data srv = emit sid (Ev_error ''Authentication required'') srv \<and>
         emitted (on_claim_code now sid data srv) = emitted srv @ [(sid, Ev_error ''Authentication required'')] \<and>
         sockets (on_claim_code now sid data srv) = sockets srv \<and>
         userRateLimits (on_claim_code now sid data srv) = userRateLimits srv \<and>
         connectionStats (on_claim_code now sid data srv) = connectionStats srv"
proof -
  have "rooms_need_auth (setupRedisAdapter bus (initial_server env_SERVER_ID t0))"
    by (cases bus) (simp_all add: rooms_need_auth_def setupRedisAdapter_def initial_server_def)
  then have inv: "rooms_need_auth (run JSON_parse tr (setupRedisAdapter bus (initial_server env_SERVER_ID t0)))"
    by (rule rooms_need_auth_run)
  have refused: "on_claim_code now sid data srv = emit sid (Ev_error ''Authentication required'') srv"
    using assms by (rule on_claim_code_unauthenticated)
  show ?thesis
    using inv refused by (simp add: emit_def new_socket_def)
qed

theorem rooms_only_after_authenticate_witness:
  "find_socket ''s2''
     (run Map.empty
        [(0, Connection ''s1'' ''10.0.0.7'' None), (1, Connection ''s2'' ''10.0.0.8'' None),
         (2, Authenticate ''s1'' \<lparr>username = Some ''alice'', token = None\<rparr>)]
        (setupRedisAdapter Bus_ok (initial_server None 0)))
     = Some (new_socket ''s2'' ''10.0.0.8'' None) \<and>
   map (\<lambda>s. (sock_id s, rooms s, authenticated s))
     (sockets (run Map.empty
        [(0, Connection ''s1'' ''10.0.0.7'' None), (1, Connection ''s2'' ''10.0.0.8'' None),
         (2, Authenticate ''s1'' \<lparr>username = Some ''alice'', token = None\<rparr>)]
        (setupRedisAdapter Bus_ok (initial_server None 0))))
     = [(''s1'', [''user_alice''], True), (''s2'', [], False)] \<and>
   rooms_need_auth (run Map.empty
        [(0, Connection ''s1'' ''10.0.0.7'' None), (1, Connection ''s2'' ''10.0.0.8'' None),
         (2, Authenticate ''s1'' \<lparr>username = Some ''alice'', token = None\<rparr>)]
        (setupRedisAdapter Bus_ok (initial_server None 0))) \<and>
   emitted (on_claim_code 3 ''s2'' \<lparr>code = ''X1'', auto_claim = None\<rparr>
     (run Map.empty
        [(0, Connection ''s1'' ''10.0.0.7'' None), (1, Connection ''s2'' ''10.0.0.8'' None),
         (2, Authenticate ''s1'' \<lparr>username = Some ''alice'', token = None\<rparr>)]
        (setupRedisAdapter Bus_ok (initial_server None 0))))
     = emitted (run Map.empty
        [(0, Connection ''s1'' ''10.0.0.7'' None), (1, Connection ''s2'' ''10.0.0.8'' None),
         (2, Authenticate ''s1'' \<lparr>username = Some ''alice'', token = None\<rparr>)]
        (setupRedisAdapter Bus_ok (initial_server None 0)))
       @ [(''s2'', Ev_error ''Authentication required'')]"
proof -
  let ?tr = "[(0, Connection ''s1'' ''10.0.0.7'' None), (1, Connection ''s2'' ''10.0.0.8'' None),
         (2, Authenticate ''s1'' \<lparr>username = Some ''alice'', token = None\<rparr>)]"
  let ?srv = "run Map.empty ?tr (setupRedisAdapter Bus_ok (initial_server None 0))"
  have found: "find_socket ''s2'' ?srv = Some (new_socket ''s2'' ''10.0.0.8'' None)"
    by code_simp
  have unauth: "\<not> authenticated (new_socket ''s2'' ''10.0.0.8'' None)"
    by code_simp
  have state: "map (\<lambda>s. (sock_id s, rooms s, authenticated s)) (sockets ?srv)
     = [(''s1'', [''user_alice''], True), (''s2'', [], False)]"
    by code_simp
  have "rooms_need_auth ?srv \<and>
        emitted (on_claim_code 3 ''s2'' \<lparr>code = ''X1'', auto_claim = None\<rparr> ?srv)
          = emitted ?srv @ [(''s2'', Ev_error ''Authentication required'')]"
    using rooms_only_after_authenticate[OF found unauth, where JSON_parse = Map.empty and tr = ?tr
        and bus = Bus_ok and env_SERVER_ID = None and ?t0.0 = 0 and now = 3
        and data = "\<lparr>code = ''X1'', auto_claim = None\<rparr>"]
    by blast
  then show ?thesis
    using found state by blast
qed

text \<open>
  Claim C4. When an authenticated socket with identity \<open>identity\<close> sends \<^verbatim>\<open>claim_code\<close>
  and the message check for that identity passes, the handler emits exactly:
  \<^verbatim>\<open>claim_received\<close> with the code and the identity to the sender, then \<^verbatim>\<open>code_claimed\<close> with
  the same code and \<^verbatim>\<open>claimed_by\<close> the identity to every other live socket; and
  \<^verbatim>\<open>messages_sent\<close> grows by one.
\<close>

theorem claim_code_acknowledged_and_broadcast:
  assumes "find_socket sid srv = Some socket" and "authenticated socket"
    and "socket_userId socket = Some identity"
    and "fst (checkRateLimit now identity ''message'' (userRateLimits srv))"
  shows "emitted (on_claim_code now sid data srv) =
           emitted srv @
           [(sid, Ev_claim_received (code data) (Some identity) now
                    (case auto_claim data of None \<Rightarrow> False | Some b \<Rightarrow> b))] @
           map (\<lambda>r. (r, Ev_code_claimed (code data) (Some identity) now)) (broadcast_targets sid srv) \<and>
         set (broadcast_targets sid srv) = {sock_id s | s. s \<in> set (live_sockets srv) \<and> sock_id s \<noteq> sid} \<and>
         messages_sent (connectionStats (on_claim_code now sid data srv)) =
           messages_sent (connectionStats srv) + 1"
proof -
  have ok: "fst (checkRateLimit now (template_string (socket_userId socket)) ''message'' (userRateLimits srv))"
    using assms(3,4) by (simp add: template_string_def)
  have targets: "set (broadcast_targets sid srv) = {sock_id s | s. s \<in> set (live_sockets srv) \<and> sock_id s \<noteq> sid}"
    by (auto simp: broadcast_targets_def live_sockets_def)
  show ?thesis
    using on_claim_code_accepted[OF assms(1,2) ok, of data] assms(3) targets
    by (simp add: updateStats_def)
qed

theorem claim_code_acknowledged_and_broadcast_witness:
  "emitted (on_claim_code 4 ''s1'' \<lparr>code = ''X1'', auto_claim = None\<rparr>
     (run Map.empty
        [(0, Connection ''s1'' ''10.0.0.7'' None), (1, Connection ''s2'' ''10.0.0.8'' None),
         (2, Authenticate ''s1'' \<lparr>username = Some ''alice'', token = None\<rparr>),
         (3, Authenticate ''s2'' \<lparr>username = Some ''bob'', token = None\<rparr>)]
        (initial_server None 0)))
   = emitted (run Map.empty
        [(0, Connection ''s1'' ''10.0.0.7'' None), (1, Connection ''s2'' ''10.0.0.8'' None),
         (2, Authenticate ''s1'' \<lparr>username = Some ''alice'', token = None\<rparr>),
         (3, Authenticate ''s2'' \<lparr>username = Some ''bob'', token = None\<rparr>)]
        (initial_server None 0))
     @ [(''s1'', Ev_claim_received ''X1'' (Some ''alice'') 4 False),
        (''s2'', Ev_code_claimed ''X1'' (Some ''alice'') 4)] \<and>
   messages_sent (connectionStats (on_claim_code 4 ''s1'' \<lparr>code = ''X1'', auto_claim = None\<rparr>
     (run Map.empty
        [(0, Connection ''s1'' ''10.0.0.7'' None), (1, Connection ''s2'' ''10.0.0.8'' None),
         (2, Authenticate ''s1'' \<lparr>username = Some ''alice'', token = None\<rparr>),
         (3, Authenticate ''s2'' \<lparr>username = Some ''bob'', token = None\<rparr>)]
        (initial_server None 0)))) = 1"
proof -
  let ?tr = "[(0, Connection ''s1'' ''10.0.0.7'' None), (1, Connection ''s2'' ''10.0.0.8'' None),
         (2, Authenticate ''s1'' \<lparr>username = Some ''alice'', token = None\<rparr>),
         (3, Authenticate ''s2'' \<lparr>username = Some ''bob'', token = None\<rparr>)]"
  let ?srv = "run Map.empty ?tr (initial_server None 0)"
  let ?alice = "\<lparr>sock_id = ''s1'', clientIp = ''10.0.0.7'', userId = ''s1'',
                 socket_userId = Some ''alice'', authenticated = True,
                 rooms = [''user_alice''], connected = True\<rparr>"
  have found: "find_socket ''s1'' ?srv = Some ?alice" by code_simp
  have auth: "authenticated ?alice" by simp
  have ident: "socket_userId ?alice = Some ''alice''" by simp
  have ok: "fst (checkRateLimit 4 ''alice'' ''message'' (userRateLimits ?srv))" by code_simp
  have targets: "broadcast_targets ''s1'' ?srv = [''s2'']" by code_simp
  have sent: "messages_sent (connectionStats ?srv) = 0" by code_simp
  show ?thesis
    using claim_code_acknowledged_and_broadcast[OF found auth ident ok,
        where data = "\<lparr>code = ''X1'', auto_claim = None\<rparr>"]
    unfolding targets sent by simp
qed

lemma find_socket_on_claim_code [simp]:
  "find_socket sid' (on_claim_code now sid data srv) = find_socket sid' srv"
  by (simp add: find_socket_def)

lemma sid_not_broadcast_target: "sid \<notin> set (broadcast_targets sid srv)"
  by (auto simp: broadcast_targets_def)

lemma replies_to_on_claim_code:
  assumes "find_socket sid srv = Some socket" and "authenticated socket"
    and "socket_userId socket = Some identity"
  shows "replies_to sid srv (on_claim_code now sid data srv) =
           (if fst (checkRateLimit now identity ''message'' (userRateLimits srv))
            then [Ev_claim_received (code data) (Some identity) now
                    (case auto_claim data of None \<Rightarrow> False | Some b \<Rightarrow> b)]
            else [Ev_error ''Rate limit exceeded - slow down!''])"
proof (cases "fst (checkRateLimit now identity ''message'' (userRateLimits srv))")
  case True
  then have ok: "fst (checkRateLimit now (template_string (socket_userId socket)) ''message'' (userRateLimits srv))"
    using assms(3) by (simp add: template_string_def)
  have "filter (\<lambda>e. fst e = sid)
          (map (\<lambda>r. (r, Ev_code_claimed (code data) (socket_userId socket) now)) (broadcast_targets sid srv)) = []"
    using sid_not_broadcast_target[of sid srv] by (auto simp: filter_empty_conv)
  then show ?thesis
    using on_claim_code_accepted(1)[OF assms(1,2) ok, of data] True assms(3)
    by (simp add: replies_to_def)
next
  case False
  then have no: "\<not> fst (checkRateLimit now (template_string (socket_userId socket)) ''message'' (userRateLimits srv))"
    using assms(3) by (simp add: template_string_def)
  show ?thesis
    using on_claim_code_limited(1)[OF assms(1,2) no, of data] False
    by (simp add: replies_to_def)
qed

lemma userRateLimits_on_claim_code:
  assumes "find_socket sid srv = Some socket" and "authenticated socket"
    and "socket_userId socket = Some identity"
  shows "userRateLimits (on_claim_code now sid data srv) =
           snd (checkRateLimit now identity ''message'' (userRateLimits srv))"
proof (cases "fst (checkRateLimit now identity ''message'' (userRateLimits srv))")
  case True
  then show ?thesis
    using on_claim_code_accepted(3)[OF assms(1,2), of now data] assms(3)
    by (simp add: template_string_def)
next
  case False
  then show ?thesis
    using on_claim_code_limited(3)[OF assms(1,2), of now data] assms(3)
    by (simp add: template_string_def)
qed

lemma claim_code_calls_Cons:
  "claim_code_calls ((now, data) # rest) sid srv =
     (replies_to sid srv (on_claim_code now sid data srv) #
        fst (claim_code_calls rest sid (on_claim_code now sid data srv)),
      snd (claim_code_calls rest sid (on_claim_code now sid data srv)))"
  by (simp add: Let_def case_prod_beta)

lemma claim_code_calls_replies:
  assumes "find_socket sid srv = Some socket" and "authenticated socket"
    and "socket_userId socket = Some identity"
  shows "fst (claim_code_calls calls sid srv) =
           map2 (\<lambda>ok call. if ok
                   then [Ev_claim_received (code (snd call)) (Some identity) (fst call)
                           (case auto_claim (snd call) of None \<Rightarrow> False | Some b \<Rightarrow> b)]
                   else [Ev_error ''Rate limit exceeded - slow down!''])
             (fst (checkRateLimit_calls (map fst calls) identity ''message'' (userRateLimits srv)))
             calls"
  using assms(1)
proof (induction calls arbitrary: srv)
  case Nil
  then show ?case by simp
next
  case (Cons call calls)
  obtain now data where call: "call = (now, data)" by (cases call)
  let ?srv' = "on_claim_code now sid data srv"
  have found': "find_socket sid ?srv' = Some socket" using Cons.prems by simp
  have lims': "userRateLimits ?srv' = snd (checkRateLimit now identity ''message'' (userRateLimits srv))"
    by (rule userRateLimits_on_claim_code[OF Cons.prems assms(2,3)])
  have reply: "replies_to sid srv ?srv' =
           (if fst (checkRateLimit now identity ''message'' (userRateLimits srv))
            then [Ev_claim_received (code data) (Some identity) now
                    (case auto_claim data of None \<Rightarrow> False | Some b \<Rightarrow> b)]
            else [Ev_error ''Rate limit exceeded - slow down!''])"
    by (rule replies_to_on_claim_code[OF Cons.prems assms(2,3)])
  show ?case
    using Cons.IH[OF found'] lims' reply call
    by (simp add: claim_code_calls_Cons calls_Cons del: claim_code_calls.simps checkRateLimit_calls.simps)
qed

lemma map2_replicate_True_False:
  assumes "length xs = n"
  shows "map2 (\<lambda>ok call. if ok then f call else g) (replicate n True @ [False]) (xs @ [x]) = map f xs @ [g]"
  using assms by (induction xs arbitrary: n) auto

text \<open>
  Claim C5, as amended. Eleven \<^verbatim>\<open>claim_code\<close> events of an authenticated socket, the first
  of which opens the message window of its identity (nothing else has been charged to
  the key \<^verbatim>\<open>identity_message\<close> in the current window) and the others not later than that
  window's reset time: each of the first ten is answered with \<^verbatim>\<open>claim_received\<close>, the
  eleventh with the rate-limit error.
\<close>

theorem eleven_claims_on_fresh_window:
  assumes "find_socket sid srv = Some socket" and "authenticated socket"
    and "socket_userId socket = Some identity"
    and "window_fresh (fst first) identity ''message'' (userRateLimits srv)"
    and "length middle = 9"
    and "\<forall>call\<in>set (middle @ [eleventh]). fst call \<le> fst first + 60000"
  shows "fst (claim_code_calls (first # middle @ [eleventh]) sid srv) =
           map (\<lambda>call. [Ev_claim_received (code (snd call)) (Some identity) (fst call)
                          (case auto_claim (snd call) of None \<Rightarrow> False | Some b \<Rightarrow> b)])
             (first # middle)
           @ [[Ev_error ''Rate limit exceeded - slow down!'']]"
proof -
  let ?calls = "first # middle @ [eleventh]"
  have len: "length (map fst (middle @ [eleventh])) = nat (maxLimit_of ''message'')"
    using assms(5) by (simp add: maxLimit_of_def MESSAGE_RATE_LIMIT_def)
  have within: "\<forall>t\<in>set (map fst (middle @ [eleventh])). t \<le> fst first + 60000"
    using assms(6) by auto
  have oks: "fst (checkRateLimit_calls (map fst ?calls) identity ''message'' (userRateLimits srv))
               = replicate 10 True @ [False]"
    using calls_fresh_budget(1)[OF assms(4) len within]
    by (simp add: maxLimit_of_def MESSAGE_RATE_LIMIT_def)
  have split: "?calls = (first # middle) @ [eleventh]" by simp
  have l10: "length (first # middle) = 10" using assms(5) by simp
  have "fst (claim_code_calls ?calls sid srv) =
           map2 (\<lambda>ok call. if ok
                   then [Ev_claim_received (code (snd call)) (Some identity) (fst call)
                           (case auto_claim (snd call) of None \<Rightarrow> False | Some b \<Rightarrow> b)]
                   else [Ev_error ''Rate limit exceeded - slow down!''])
             (replicate 10 True @ [False]) ((first # middle) @ [eleventh])"
    using claim_code_calls_replies[OF assms(1,2,3), of ?calls] oks by simp
  also have "\<dots> = map (\<lambda>call. [Ev_claim_received (code (snd call)) (Some identity) (fst call)
                          (case auto_claim (snd call) of None \<Rightarrow> False | Some b \<Rightarrow> b)])
             (first # middle)
           @ [[Ev_error ''Rate limit exceeded - slow down!'']]"
    by (rule map2_replicate_True_False[OF l10])
  finally show ?thesis .
qed

theorem eleven_claims_on_fresh_window_witness:
  "fst (claim_code_calls
          [(2, \<lparr>code = ''X1'', auto_claim = None\<rparr>), (3, \<lparr>code = ''X2'', auto_claim = Some True\<rparr>),
           (4, \<lparr>code = ''X3'', auto_claim = None\<rparr>), (5, \<lparr>code = ''X4'', auto_claim = None\<rparr>),
           (6, \<lparr>code = ''X5'', auto_claim = None\<rparr>), (7, \<lparr>code = ''X6'', auto_claim = None\<rparr>),
           (8, \<lparr>code = ''X7'', auto_claim = None\<rparr>), (9, \<lparr>code = ''X8'', auto_claim = None\<rparr>),
           (10, \<lparr>code = ''X9'', auto_claim = None\<rparr>), (11, \<lparr>code = ''X10'', auto_claim = None\<rparr>),
           (60002, \<lparr>code = ''X11'', auto_claim = None\<rparr>)]
          ''s1''
          (run Map.empty
             [(0, Connection ''s1'' ''10.0.0.7'' None),
              (1, Authenticate ''s1'' \<lparr>username = Some ''alice'', token = None\<rparr>)]
             (initial_server None 0)))
   = [[Ev_claim_received ''X1'' (Some ''alice'') 2 False], [Ev_claim_received ''X2'' (Some ''alice'') 3 True],
      [Ev_claim_received ''X3'' (Some ''alice'') 4 False], [Ev_claim_received ''X4'' (Some ''alice'') 5 False],
      [Ev_claim_received ''X5'' (Some ''alice'') 6 False], [Ev_claim_received ''X6'' (Some ''alice'') 7 False],
      [Ev_claim_received ''X7'' (Some ''alice'') 8 False], [Ev_claim_received ''X8'' (Some ''alice'') 9 False],
      [Ev_claim_received ''X9'' (Some ''alice'') 10 False], [Ev_claim_received ''X10'' (Some ''alice'') 11 False],
      [Ev_error ''Rate limit exceeded - slow down!'']]"
proof -
  let ?srv = "run Map.empty
             [(0, Connection ''s1'' ''10.0.0.7'' None),
              (1, Authenticate ''s1'' \<lparr>username = Some ''alice'', token = None\<rparr>)]
             (initial_server None 0)"
  let ?alice = "\<lparr>sock_id = ''s1'', clientIp = ''10.0.0.7'', userId = ''s1'',
                 socket_userId = Some ''alice'', authenticated = True,
                 rooms = [''user_alice''], connected = True\<rparr>"
  let ?first = "(2 :: int, \<lparr>code = ''X1'', auto_claim = None\<rparr>)"
  let ?middle = "[(3 :: int, \<lparr>code = ''X2'', auto_claim = Some True\<rparr>),
           (4, \<lparr>code = ''X3'', auto_claim = None\<rparr>), (5, \<lparr>code = ''X4'', auto_claim = None\<rparr>),
           (6, \<lparr>code = ''X5'', auto_claim = None\<rparr>), (7, \<lparr>code = ''X6'', auto_claim = None\<rparr>),
           (8, \<lparr>code = ''X7'', auto_claim = None\<rparr>), (9, \<lparr>code = ''X8'', auto_claim = None\<rparr>),
           (10, \<lparr>code = ''X9'', auto_claim = None\<rparr>), (11, \<lparr>code = ''X10'', auto_claim = None\<rparr>)]"
  let ?eleventh = "(60002 :: int, \<lparr>code = ''X11'', auto_claim = None\<rparr>)"
  have found: "find_socket ''s1'' ?srv = Some ?alice" by code_simp
  have auth: "authenticated ?alice" by simp
  have ident: "socket_userId ?alice = Some ''alice''" by simp
  have fresh: "window_fresh (fst ?first) ''alice'' ''message'' (userRateLimits ?srv)" by code_simp
  have len: "length ?middle = 9" by simp
  have within: "\<forall>call\<in>set (?middle @ [?eleventh]). fst call \<le> fst ?first + 60000" by simp
  show ?thesis
    using eleven_claims_on_fresh_window[OF found auth ident fresh len within] by simp
qed

text \<open>
  Claim C5 as stated fails when something else is charged to the same key in the same
  window. Here the handshake names the user \<^verbatim>\<open>alice\<close> and the socket authenticates as
  \<^verbatim>\<open>alice\<close>: the authenticate event is charged to \<^verbatim>\<open>alice_message\<close>, and of eleven claims
  in the same minute only nine are answered with \<^verbatim>\<open>claim_received\<close>.
\<close>

theorem tenth_claim_refused_after_authenticate:
  "fst (claim_code_calls
          [(2, \<lparr>code = ''X1'', auto_claim = None\<rparr>), (3, \<lparr>code = ''X2'', auto_claim = None\<rparr>),
           (4, \<lparr>code = ''X3'', auto_claim = None\<rparr>), (5, \<lparr>code = ''X4'', auto_claim = None\<rparr>),
           (6, \<lparr>code = ''X5'', auto_claim = None\<rparr>), (7, \<lparr>code = ''X6'', auto_claim = None\<rparr>),
           (8, \<lparr>code = ''X7'', auto_claim = None\<rparr>), (9, \<lparr>code = ''X8'', auto_claim = None\<rparr>),
           (10, \<lparr>code = ''X9'', auto_claim = None\<rparr>), (11, \<lparr>code = ''X10'', auto_claim = None\<rparr>),
           (12, \<lparr>code = ''X11'', auto_claim = None\<rparr>)]
          ''s1''
          (run Map.empty
             [(0, Connection ''s1'' ''10.0.0.7'' (Some ''alice'')),
              (1, Authenticate ''s1'' \<lparr>username = Some ''alice'', token = None\<rparr>)]
             (initial_server None 0)))
   = [[Ev_claim_received ''X1'' (Some ''alice'') 2 False], [Ev_claim_received ''X2'' (Some ''alice'') 3 False],
      [Ev_claim_received ''X3'' (Some ''alice'') 4 False], [Ev_claim_received ''X4'' (Some ''alice'') 5 False],
      [Ev_claim_received ''X5'' (Some ''alice'') 6 False], [Ev_claim_received ''X6'' (Some ''alice'') 7 False],
      [Ev_claim_received ''X7'' (Some ''alice'') 8 False], [Ev_claim_received ''X8'' (Some ''alice'') 9 False],
      [Ev_claim_received ''X9'' (Some ''alice'') 10 False],
      [Ev_error ''Rate limit exceeded - slow down!''],
      [Ev_error ''Rate limit exceeded - slow down!'']]"
  by code_simp

lemma on_authenticate_limited:
  assumes "find_socket sid srv = Some socket"
    and "\<not> fst (checkRateLimit now (userId socket) ''message'' (userRateLimits srv))"
  shows "on_authenticate now sid data srv =
           emit sid (Ev_error ''Message rate limit exceeded'')
             (srv\<lparr>userRateLimits := snd (checkRateLimit now (userId socket) ''message'' (userRateLimits srv))\<rparr>)"
  using assms by (simp add: on_authenticate_def Let_def case_prod_beta)

lemma on_authenticate_invalid:
  assumes "find_socket sid srv = Some socket"
    and "fst (checkRateLimit now (userId socket) ''message'' (userRateLimits srv))"
    and "invalid_username data"
  shows "on_authenticate now sid data srv =
           emit sid (Ev_auth_error ''Invalid username'')
             (srv\<lparr>userRateLimits := snd (checkRateLimit now (userId socket) ''message'' (userRateLimits srv))\<rparr>)"
  using assms
  by (auto simp: on_authenticate_def Let_def case_prod_beta invalid_username_def split: option.splits)

lemma userRateLimits_on_authenticate:
  assumes "find_socket sid srv = Some socket"
  shows "userRateLimits (on_authenticate now sid data srv) =
           snd (checkRateLimit now (userId socket) ''message'' (userRateLimits srv))"
  using assms
  by (simp add: on_authenticate_def Let_def case_prod_beta emit_def update_socket_def
        sendRecentCodes_def split: option.splits)

lemma checkRateLimit_consumes:
  assumes "fst (checkRateLimit now uid ty lims)"
  shows "if window_fresh now uid ty lims
         then snd (checkRateLimit now uid ty lims) (uid @ ''_'' @ ty) = Some \<lparr>count = 1, resetTime = now + 60000\<rparr>
         else \<exists>w. lims (uid @ ''_'' @ ty) = Some w \<and>
                snd (checkRateLimit now uid ty lims) (uid @ ''_'' @ ty) = Some (w\<lparr>count := count w + 1\<rparr>)"
proof (cases "lims (uid @ ''_'' @ ty)")
  case None
  then show ?thesis by (simp add: window_fresh_def checkRateLimit_def)
next
  case (Some w)
  show ?thesis
  proof (cases "now > resetTime w")
    case True
    then show ?thesis using Some checkRateLimit_expired[of lims uid ty w now]
      by (simp add: window_fresh_def)
  next
    case False
    then show ?thesis using Some assms
      by (auto simp: window_fresh_def checkRateLimit_def Let_def split: if_splits)
  qed
qed

text \<open>
  Claim C6, as amended. An authenticate event whose username is absent or shorter than
  three characters changes no socket: the socket that sent it is found exactly as
  before, so it keeps its authenticated flag, its identity and its rooms. The event
  handed back is \<^verbatim>\<open>auth_error\<close> when the message check for the socket's key passes, and
  the rate-limit error when it does not.
\<close>

theorem failed_authenticate_keeps_session:
  assumes "find_socket sid srv = Some socket" and "invalid_username data"
  shows "sockets (on_authenticate now sid data srv) = sockets srv \<and>
         find_socket sid (on_authenticate now sid data srv) = Some socket \<and>
         (fst (checkRateLimit now (userId socket) ''message'' (userRateLimits srv)) \<longrightarrow>
            emitted (on_authenticate now sid data srv) =
              emitted srv @ [(sid, Ev_auth_error ''Invalid username'')]) \<and>
         (\<not> fst (checkRateLimit now (userId socket) ''message'' (userRateLimits srv)) \<longrightarrow>
            emitted (on_authenticate now sid data srv) =
              emitted srv @ [(sid, Ev_error ''Message rate limit exceeded'')])"
proof (cases "fst (checkRateLimit now (userId socket) ''message'' (userRateLimits srv))")
  case True
  show ?thesis
    using True assms(1)
    unfolding on_authenticate_invalid[OF assms(1) True assms(2)]
    by (simp add: emit_def find_socket_def)
next
  case False
  show ?thesis
    using False assms(1)
    unfolding on_authenticate_limited[OF assms(1) False]
    by (simp add: emit_def find_socket_def)
qed

text \<open>
  Claim C10. The key of a socket is the handshake's \<^verbatim>\<open>userId\<close>, or the socket id when that
  is absent or empty, and no authenticate changes it. Every authenticate event charges
  the message check to that key, whatever the payload and whatever identity the socket
  has: when the check fails the handler stops with the rate-limit error before looking at
  the username, and when it passes and the username is invalid the reply is
  \<^verbatim>\<open>auth_error\<close> and the key's window has one unit more (a fresh window starts at 1).
\<close>

theorem authenticate_charges_handshake_key:
  assumes "find_socket sid srv = Some socket"
  shows "userId (new_socket sid' address query_userId) =
           (case query_userId of None \<Rightarrow> sid' | Some u \<Rightarrow> if u = [] then sid' else u) \<and>
         map userId (sockets (on_authenticate now sid data srv)) = map userId (sockets srv) \<and>
         userRateLimits (on_authenticate now sid data srv) =
           snd (checkRateLimit now (userId socket) ''message'' (userRateLimits srv)) \<and>
         (\<not> fst (checkRateLimit now (userId socket) ''message'' (userRateLimits srv)) \<longrightarrow>
            sockets (on_authenticate now sid data srv) = sockets srv \<and>
            emitted (on_authenticate now sid data srv) =
              emitted srv @ [(sid, Ev_error ''Message rate limit exceeded'')]) \<and>
         (fst (checkRateLimit now (userId socket) ''message'' (userRateLimits srv)) \<and> invalid_username data \<longrightarrow>
            emitted (on_authenticate now sid data srv) =
              emitted srv @ [(sid, Ev_auth_error ''Invalid username'')] \<and>
            (window_fresh now (userId socket) ''message'' (userRateLimits srv) \<longrightarrow>
               userRateLimits (on_authenticate now sid data srv) (userId socket @ ''_'' @ ''message'')
                 = Some \<lparr>count = 1, resetTime = now + 60000\<rparr>) \<and>
            (\<not> window_fresh now (userId socket) ''message'' (userRateLimits srv) \<longrightarrow>
               (\<exists>w. userRateLimits srv (userId socket @ ''_'' @ ''message'') = Some w \<and>
                    userRateLimits (on_authenticate now sid data srv) (userId socket @ ''_'' @ ''message'')
                      = Some (w\<lparr>count := count w + 1\<rparr>))))"
proof -
  let ?check = "checkRateLimit now (userId socket) ''message'' (userRateLimits srv)"
  have key: "userId (new_socket sid' address query_userId) =
           (case query_userId of None \<Rightarrow> sid' | Some u \<Rightarrow> if u = [] then sid' else u)"
    by (simp add: new_socket_def)
  have ids: "map userId (sockets (on_authenticate now sid data srv)) = map userId (sockets srv)"
    using sockets_on_authenticate[of now sid data srv] by (auto simp: comp_def)
  have lims: "userRateLimits (on_authenticate now sid data srv) = snd ?check"
    by (rule userRateLimits_on_authenticate[OF assms])
  have limited: "sockets (on_authenticate now sid data srv) = sockets srv \<and>
            emitted (on_authenticate now sid data srv) =
              emitted srv @ [(sid, Ev_error ''Message rate limit exceeded'')]" if "\<not> fst ?check"
    unfolding on_authenticate_limited[OF assms that] by (simp add: emit_def)
  have invalid: "emitted (on_authenticate now sid data srv) =
              emitted srv @ [(sid, Ev_auth_error ''Invalid username'')]"
    if "fst ?check" "invalid_username data"
    unfolding on_authenticate_invalid[OF assms that] by (simp add: emit_def)
  have consumed: "(window_fresh now (userId socket) ''message'' (userRateLimits srv) \<longrightarrow>
               userRateLimits (on_authenticate now sid data srv) (userId socket @ ''_'' @ ''message'')
                 = Some \<lparr>count = 1, resetTime = now + 60000\<rparr>) \<and>
            (\<not> window_fresh now (userId socket) ''message'' (userRateLimits srv) \<longrightarrow>
               (\<exists>w. userRateLimits srv (userId socket @ ''_'' @ ''message'') = Some w \<and>
                    userRateLimits (on_authenticate now sid data srv) (userId socket @ ''_'' @ ''message'')
                      = Some (w\<lparr>count := count w + 1\<rparr>)))" if "fst ?check"
    unfolding lims using checkRateLimit_consumes[OF that] by (simp split: if_splits)
  show ?thesis
    using key ids lims limited invalid consumed by blast
qed

theorem failed_authenticate_keeps_session_witness:
  "find_socket ''s1''
     (run Map.empty
        [(0, Connection ''s1'' ''10.0.0.7'' None),
         (1, Authenticate ''s1'' \<lparr>username = Some ''alice'', token = None\<rparr>)]
        (initial_server None 0))
     = Some \<lparr>sock_id = ''s1'', clientIp = ''10.0.0.7'', userId = ''s1'',
              socket_userId = Some ''alice'', authenticated = True,
              rooms = [''user_alice''], connected = True\<rparr> \<and>
   invalid_username \<lparr>username = Some ''ab'', token = None\<rparr> \<and>
   find_socket ''s1''
     (on_authenticate 2 ''s1'' \<lparr>username = Some ''ab'', token = None\<rparr>
        (run Map.empty
           [(0, Connection ''s1'' ''10.0.0.7'' None),
            (1, Authenticate ''s1'' \<lparr>username = Some ''alice'', token = None\<rparr>)]
           (initial_server None 0)))
     = Some \<lparr>sock_id = ''s1'', clientIp = ''10.0.0.7'', userId = ''s1'',
              socket_userId = Some ''alice'', authenticated = True,
              rooms = [''user_alice''], connected = True\<rparr> \<and>
   emitted
     (on_authenticate 2 ''s1'' \<lparr>username = Some ''ab'', token = None\<rparr>
        (run Map.empty
           [(0, Connection ''s1'' ''10.0.0.7'' None),
            (1, Authenticate ''s1'' \<lparr>username = Some ''alice'', token = None\<rparr>)]
           (initial_server None 0)))
     = [(''s1'', Ev_welcome ''main'' False 0 10 5), (''s1'', Ev_authenticated ''alice'' ''main'' 1),
        (''s1'', Ev_auth_error ''Invalid username'')]"
proof -
  let ?srv = "run Map.empty
        [(0, Connection ''s1'' ''10.0.0.7'' None),
         (1, Authenticate ''s1'' \<lparr>username = Some ''alice'', token = None\<rparr>)]
        (initial_server None 0)"
  let ?alice = "\<lparr>sock_id = ''s1'', clientIp = ''10.0.0.7'', userId = ''s1'',
              socket_userId = Some ''alice'', authenticated = True,
              rooms = [''user_alice''], connected = True\<rparr>"
  let ?data = "\<lparr>username = Some ''ab'', token = None\<rparr>"
  have found: "find_socket ''s1'' ?srv = Some ?alice" by code_simp
  have invalid: "invalid_username ?data" by code_simp
  have ok: "fst (checkRateLimit 2 (userId ?alice) ''message'' (userRateLimits ?srv))" by code_simp
  have before: "emitted ?srv =
      [(''s1'', Ev_welcome ''main'' False 0 10 5), (''s1'', Ev_authenticated ''alice'' ''main'' 1)]"
    by code_simp
  have "find_socket ''s1'' (on_authenticate 2 ''s1'' ?data ?srv) = Some ?alice \<and>
        emitted (on_authenticate 2 ''s1'' ?data ?srv) =
          emitted ?srv @ [(''s1'', Ev_auth_error ''Invalid username'')]"
    using failed_authenticate_keeps_session[OF found invalid, where now = 2] ok by blast
  then show ?thesis
    using found invalid unfolding before by simp
qed

text \<open>
  Claim C6 as stated fails when the message budget of the socket's key is used up. Here
  the handshake names the user \<^verbatim>\<open>alice\<close>, the socket authenticates as \<^verbatim>\<open>alice\<close> and sends
  nine claims; the authenticate with the too-short name \<^verbatim>\<open>ab\<close> in the same minute is
  answered with the rate-limit error, not with \<^verbatim>\<open>auth_error\<close>. The session itself stays
  as it was.
\<close>

theorem short_username_answered_with_rate_limit_error:
  "replies_to ''s1''
     (run Map.empty
        [(0, Connection ''s1'' ''10.0.0.7'' (Some ''alice'')),
         (1, Authenticate ''s1'' \<lparr>username = Some ''alice'', token = None\<rparr>),
         (2, Claim_code ''s1'' \<lparr>code = ''X1'', auto_claim = None\<rparr>),
         (3, Claim_code ''s1'' \<lparr>code = ''X2'', auto_claim = None\<rparr>),
         (4, Claim_code ''s1'' \<lparr>code = ''X3'', auto_claim = None\<rparr>),
         (5, Claim_code ''s1'' \<lparr>code = ''X4'', auto_claim = None\<rparr>),
         (6, Claim_code ''s1'' \<lparr>code = ''X5'', auto_claim = None\<rparr>),
         (7, Claim_code ''s1'' \<lparr>code = ''X6'', auto_claim = None\<rparr>),
         (8, Claim_code ''s1'' \<lparr>code = ''X7'', auto_claim = None\<rparr>),
         (9, Claim_code ''s1'' \<lparr>code = ''X8'', auto_claim = None\<rparr>),
         (10, Claim_code ''s1'' \<lparr>code = ''X9'', auto_claim = None\<rparr>)]
        (initial_server None 0))
     (on_authenticate 11 ''s1'' \<lparr>username = Some ''ab'', token = None\<rparr>
       (run Map.empty
        [(0, Connection ''s1'' ''10.0.0.7'' (Some ''alice'')),
         (1, Authenticate ''s1'' \<lparr>username = Some ''alice'', token = None\<rparr>),
         (2, Claim_code ''s1'' \<lparr>code = ''X1'', auto_claim = None\<rparr>),
         (3, Claim_code ''s1'' \<lparr>code = ''X2'', auto_claim = None\<rparr>),
         (4, Claim_code ''s1'' \<lparr>code = ''X3'', auto_claim = None\<rparr>),
         (5, Claim_code ''s1'' \<lparr>code = ''X4'', auto_claim = None\<rparr>),
         (6, Claim_code ''s1'' \<lparr>code = ''X5'', auto_claim = None\<rparr>),
         (7, Claim_code ''s1'' \<lparr>code = ''X6'', auto_claim = None\<rparr>),
         (8, Claim_code ''s1'' \<lparr>code = ''X7'', auto_claim = None\<rparr>),
         (9, Claim_code ''s1'' \<lparr>code = ''X8'', auto_claim = None\<rparr>),
         (10, Claim_code ''s1'' \<lparr>code = ''X9'', auto_claim = None\<rparr>)]
        (initial_server None 0)))
   = [Ev_error ''Message rate limit exceeded''] \<and>
   find_socket ''s1''
     (on_authenticate 11 ''s1'' \<lparr>username = Some ''ab'', token = None\<rparr>
       (run Map.empty
        [(0, Connection ''s1'' ''10.0.0.7'' (Some ''alice'')),
         (1, Authenticate ''s1'' \<lparr>username = Some ''alice'', token = None\<rparr>),
         (2, Claim_code ''s1'' \<lparr>code = ''X1'', auto_claim = None\<rparr>),
         (3, Claim_code ''s1'' \<lparr>code = ''X2'', auto_claim = None\<rparr>),
         (4, Claim_code ''s1'' \<lparr>code = ''X3'', auto_claim = None\<rparr>),
         (5, Claim_code ''s1'' \<lparr>code = ''X4'', auto_claim = None\<rparr>),
         (6, Claim_code ''s1'' \<lparr>code = ''X5'', auto_claim = None\<rparr>),
         (7, Claim_code ''s1'' \<lparr>code = ''X6'', auto_claim = None\<rparr>),
         (8, Claim_code ''s1'' \<lparr>code = ''X7'', auto_claim = None\<rparr>),
         (9, Claim_code ''s1'' \<lparr>code = ''X8'', auto_claim = None\<rparr>),
         (10, Claim_code ''s1'' \<lparr>code = ''X9'', auto_claim = None\<rparr>)]
        (initial_server None 0)))
   = Some \<lparr>sock_id = ''s1'', clientIp = ''10.0.0.7'', userId = ''alice'',
            socket_userId = Some ''alice'', authenticated = True,
            rooms = [''user_alice''], connected = True\<rparr>"
  by code_simp

theorem authenticate_charges_handshake_key_witness:
  "find_socket ''s1''
     (run Map.empty [(0, Connection ''s1'' ''10.0.0.7'' (Some ''u42''))] (initial_server None 0))
     = Some (new_socket ''s1'' ''10.0.0.7'' (Some ''u42'')) \<and>
   userId (new_socket ''s1'' ''10.0.0.7'' (Some ''u42'')) = ''u42'' \<and>
   userId (new_socket ''s1'' ''10.0.0.7'' None) = ''s1'' \<and>
   invalid_username \<lparr>username = Some ''ab'', token = None\<rparr> \<and>
   emitted
     (on_authenticate 1 ''s1'' \<lparr>username = Some ''ab'', token = None\<rparr>
        (run Map.empty [(0, Connection ''s1'' ''10.0.0.7'' (Some ''u42''))] (initial_server None 0)))
     = emitted (run Map.empty [(0, Connection ''s1'' ''10.0.0.7'' (Some ''u42''))] (initial_server None 0))
       @ [(''s1'', Ev_auth_error ''Invalid username'')] \<and>
   userRateLimits
     (on_authenticate 1 ''s1'' \<lparr>username = Some ''ab'', token = None\<rparr>
        (run Map.empty [(0, Connection ''s1'' ''10.0.0.7'' (Some ''u42''))] (initial_server None 0)))
     ''u42_message'' = Some \<lparr>count = 1, resetTime = 60001\<rparr>"
proof -
  let ?srv = "run Map.empty [(0, Connection ''s1'' ''10.0.0.7'' (Some ''u42''))] (initial_server None 0)"
  let ?socket = "new_socket ''s1'' ''10.0.0.7'' (Some ''u42'')"
  let ?data = "\<lparr>username = Some ''ab'', token = None\<rparr>"
  have found: "find_socket ''s1'' ?srv = Some ?socket" by code_simp
  have key: "userId ?socket = ''u42''" by code_simp
  have key': "userId (new_socket ''s1'' ''10.0.0.7'' None) = ''s1''" by code_simp
  have invalid: "invalid_username ?data" by code_simp
  have ok: "fst (checkRateLimit 1 (userId ?socket) ''message'' (userRateLimits ?srv))" by code_simp
  have fresh: "window_fresh 1 (userId ?socket) ''message'' (userRateLimits ?srv)" by code_simp
  have "emitted (on_authenticate 1 ''s1'' ?data ?srv) =
              emitted ?srv @ [(''s1'', Ev_auth_error ''Invalid username'')] \<and>
        userRateLimits (on_authenticate 1 ''s1'' ?data ?srv) (userId ?socket @ ''_'' @ ''message'')
                    = Some \<lparr>count = 1, resetTime = 1 + 60000\<rparr>"
    using authenticate_charges_handshake_key[OF found, where now = 1 and data = ?data]
      ok invalid fresh by blast
  then have "emitted (on_authenticate 1 ''s1'' ?data ?srv) =
              emitted ?srv @ [(''s1'', Ev_auth_error ''Invalid username'')] \<and>
        userRateLimits (on_authenticate 1 ''s1'' ?data ?srv) ''u42_message''
                    = Some \<lparr>count = 1, resetTime = 60001\<rparr>"
    unfolding key by simp
  then show ?thesis
    using found key key' invalid by blast
qed

section \<open>The connection counter\<close>

lemma active_on_connection:
  "active_connections (connectionStats (on_connection now sid address q srv)) =
     active_connections (connectionStats srv) +
       (if fst (checkRateLimit now address ''connection'' (userRateLimits srv)) then 1 else 0)"
  by (simp add: on_connection_def Let_def case_prod_beta emit_def updateStats_def)

lemma stats_on_authenticate:
  "connectionStats (on_authenticate now sid data srv) = connectionStats srv"
  by (simp add: on_authenticate_def Let_def case_prod_beta emit_def update_socket_def
        sendRecentCodes_def split: option.splits)

lemma active_on_claim_code:
  "active_connections (connectionStats (on_claim_code now sid data srv)) =
     active_connections (connectionStats srv)"
  by (simp add: on_claim_code_def Let_def case_prod_beta emit_def broadcast_emit_def
        updateStats_def split: option.splits)

lemma active_on_disconnect:
  "active_connections (connectionStats (on_disconnect sid srv)) =
     active_connections (connectionStats srv) - (if find_socket sid srv = None then 0 else 1)"
  by (simp add: on_disconnect_def Let_def update_socket_def updateStats_def split: option.splits)

lemma stats_resume:
  "connectionStats (sendRecentCodes_resume p sid res srv) = connectionStats srv"
  by (simp add: sendRecentCodes_resume_def Let_def emit_def split: lRange_result.splits option.splits)

lemma map_other_ids:
  assumes "\<forall>s\<in>set xs. sock_id s \<noteq> sid"
  shows "map (\<lambda>s. if sock_id s = sid then f s else s) xs = xs"
  using assms by (induction xs) auto

lemma live_after_disconnect:
  assumes "distinct (map sock_id xs)" and "s \<in> set xs" and "sock_id s = sid" and "connected s"
  shows "length (filter connected (map (\<lambda>s. if sock_id s = sid then s\<lparr>connected := False\<rparr> else s) xs)) + 1
           = length (filter connected xs)"
  using assms
proof (induction xs)
  case Nil
  then show ?case by simp
next
  case (Cons x xs)
  show ?case
  proof (cases "x = s")
    case True
    have "\<forall>y\<in>set xs. sock_id y \<noteq> sid"
      using Cons.prems(1,3) True by (force simp: image_iff)
    then have "map (\<lambda>s. if sock_id s = sid then s\<lparr>connected := False\<rparr> else s) xs = xs"
      by (rule map_other_ids)
    then show ?thesis using True Cons.prems(3,4) by simp
  next
    case False
    then have in_rest: "s \<in> set xs" using Cons.prems(2) by simp
    then have "sock_id x \<noteq> sid" using Cons.prems(1,3) by force
    moreover have "length (filter connected (map (\<lambda>s. if sock_id s = sid then s\<lparr>connected := False\<rparr> else s) xs)) + 1
           = length (filter connected xs)"
      using Cons.IH in_rest Cons.prems(1,3,4) by simp
    ultimately show ?thesis by simp
  qed
qed

lemma find_socket_None_iff: "find_socket sid srv = None \<longleftrightarrow> sid \<notin> sock_id ` set (sockets srv)"
  by (auto simp: find_socket_def find_None_iff)

lemma ids_on_authenticate:
  "map sock_id (sockets (on_authenticate now sid data srv)) = map sock_id (sockets srv)"
  using sockets_on_authenticate[of now sid data srv] by (auto simp: comp_def)

lemma connected_on_authenticate:
  "map connected (sockets (on_authenticate now sid data srv)) = map connected (sockets srv)"
  using sockets_on_authenticate[of now sid data srv] by (auto simp: comp_def)

lemma length_filter_map_eq:
  "map P xs = map P ys \<Longrightarrow> length (filter P xs) = length (filter P ys)"
proof (induction xs arbitrary: ys)
  case Nil
  then show ?case by simp
next
  case (Cons x xs)
  then obtain y ys' where "ys = y # ys'" by (cases ys) auto
  then show ?case using Cons by auto
qed

lemma disconnect_signal_cases:
  "disconnect_signal sid srv = srv \<or>
   (\<exists>socket. find_socket sid srv = Some socket \<and> connected socket \<and>
      disconnect_signal sid srv = on_disconnect sid srv)"
  by (simp add: disconnect_signal_def split: option.splits)

lemma find_in_map: "find P (map f xs) = map_option f (find (P \<circ> f) xs)"
  by (induction xs) auto

lemma find_socket_on_disconnect:
  "find_socket sid (on_disconnect sid srv) =
     map_option (\<lambda>s. s\<lparr>connected := False\<rparr>) (find_socket sid srv)"
proof -
  let ?f = "\<lambda>s. if sock_id s = sid then s\<lparr>connected := False\<rparr> else s"
  have same: "(\<lambda>s. sock_id s = sid) \<circ> ?f = (\<lambda>s. sock_id s = sid)"
    by (rule ext) simp
  have "find_socket sid (on_disconnect sid srv) = find (\<lambda>s. sock_id s = sid) (map ?f (sockets srv))"
    by (simp add: find_socket_def sockets_on_disconnect)
  also have "\<dots> = map_option ?f (find (\<lambda>s. sock_id s = sid) (sockets srv))"
    by (simp add: find_in_map same)
  also have "\<dots> = map_option (\<lambda>s. s\<lparr>connected := False\<rparr>) (find_socket sid srv)"
  proof (cases "find_socket sid srv")
    case None
    then show ?thesis by (simp add: find_socket_def)
  next
    case (Some s)
    then have "sock_id s = sid" using find_socket_Some by blast
    then show ?thesis using Some by (simp add: find_socket_def)
  qed
  finally show ?thesis .
qed

lemma disconnect_signal_twice:
  "disconnect_signal sid (disconnect_signal sid srv) = disconnect_signal sid srv"
proof (cases "find_socket sid srv")
  case None
  then show ?thesis by (simp add: disconnect_signal_def)
next
  case (Some s)
  show ?thesis
  proof (cases "connected s")
    case True
    have first: "disconnect_signal sid srv = on_disconnect sid srv"
      using Some True by (simp add: disconnect_signal_def)
    have "find_socket sid (on_disconnect sid srv) = Some (s\<lparr>connected := False\<rparr>)"
      using Some by (simp add: find_socket_on_disconnect)
    then have "disconnect_signal sid (on_disconnect sid srv) = on_disconnect sid srv"
      by (simp add: disconnect_signal_def)
    then show ?thesis using first by simp
  next
    case False
    then show ?thesis using Some by (simp add: disconnect_signal_def)
  qed
qed

lemma counts_live_step:
  assumes "counts_live srv ((now, i) # tr)"
  shows "counts_live (step p now i srv) tr"
proof (cases i)
  case (Connection sid address q)
  have fresh: "sid \<notin> sock_id ` set (sockets srv)" "sid \<notin> set (connection_ids tr)"
    using assms Connection by (auto simp: counts_live_def)
  show ?thesis
    using assms Connection fresh
    by (auto simp: counts_live_def live_sockets_def sockets_on_connection active_on_connection
          new_socket_def)
next
  case (Authenticate sid data)
  let ?srv' = "on_authenticate now sid data srv"
  have ids: "map sock_id (sockets ?srv') = map sock_id (sockets srv)" by (rule ids_on_authenticate)
  have con: "map connected (sockets ?srv') = map connected (sockets srv)" by (rule connected_on_authenticate)
  have len: "length (live_sockets ?srv') = length (live_sockets srv)"
    unfolding live_sockets_def by (rule length_filter_map_eq[OF con])
  have idset: "sock_id ` set (sockets ?srv') = sock_id ` set (sockets srv)"
    using ids by (metis set_map)
  show ?thesis
    using assms Authenticate len ids idset
    by (simp add: counts_live_def stats_on_authenticate)
next
  case (Claim_code sid data)
  then show ?thesis using assms
    by (simp add: counts_live_def live_sockets_def active_on_claim_code)
next
  case (Disconnect sid)
  have rest: "counts_live srv tr"
    using assms Disconnect by (simp add: counts_live_def)
  show ?thesis
  proof (cases "disconnect_signal sid srv = srv")
    case True
    then show ?thesis using rest Disconnect by simp
  next
    case False
    then obtain s where s: "find_socket sid srv = Some s" "connected s"
      and run: "disconnect_signal sid srv = on_disconnect sid srv"
      using disconnect_signal_cases[of sid srv] by blast
    let ?f = "\<lambda>s. if sock_id s = sid then s\<lparr>connected := False\<rparr> else s"
    let ?srv' = "on_disconnect sid srv"
    have socks: "sockets ?srv' = map ?f (sockets srv)" by (rule sockets_on_disconnect)
    have ids: "map sock_id (map ?f (sockets srv)) = map sock_id (sockets srv)" by (simp add: comp_def)
    have dist: "distinct (map sock_id (sockets srv))" using rest by (simp add: counts_live_def)
    have mem: "s \<in> set (sockets srv)" "sock_id s = sid" using s(1) find_socket_Some by auto
    have "length (filter connected (map ?f (sockets srv))) + 1 = length (filter connected (sockets srv))"
      using live_after_disconnect[OF dist mem s(2)] by simp
    then have c1: "active_connections (connectionStats ?srv') = int (length (live_sockets ?srv'))"
      using s(1) rest by (simp add: active_on_disconnect counts_live_def live_sockets_def socks)
    have c2: "distinct (map sock_id (sockets ?srv'))"
      using dist unfolding socks ids .
    have c3: "distinct (connection_ids tr)"
      using rest by (simp add: counts_live_def)
    have idset: "sock_id ` set (sockets ?srv') = sock_id ` set (sockets srv)"
      using ids by (metis set_map socks)
    have c4: "set (connection_ids tr) \<inter> sock_id ` set (sockets ?srv') = {}"
      using rest unfolding idset by (simp add: counts_live_def)
    show ?thesis
      unfolding counts_live_def Disconnect step.simps run
      using c1 c2 c3 c4 by blast
  qed
next
  case (LRange_settled sid res)
  then show ?thesis using assms
    by (simp add: counts_live_def live_sockets_def stats_resume)
qed

lemma counts_live_run:
  "counts_live srv tr \<Longrightarrow>
     active_connections (connectionStats (run p tr srv)) = int (length (live_sockets (run p tr srv)))"
proof (induction tr arbitrary: srv)
  case Nil
  then show ?case by (simp add: counts_live_def)
next
  case (Cons a tr)
  obtain now i where a: "a = (now, i)" by (cases a)
  show ?case using Cons.IH[OF counts_live_step[OF Cons.prems[unfolded a], of p]] a by simp
qed

text \<open>
  Claim C9. In every run from start-up in which the connections have ids of their own,
  the counter equals the number of admitted connections not yet disconnected. It grows by
  one for an admitted connection and not at all for one the connection check refuses
  (which also registers no socket); the disconnect signal of a live socket lowers it by
  one, and a second disconnect signal for the same socket changes nothing.
\<close>

theorem active_connections_counts_live_sockets:
  assumes "distinct (connection_ids tr)"
  shows "active_connections (connectionStats (run JSON_parse tr (setupRedisAdapter bus (initial_server env_SERVER_ID t0))))
           = int (length (live_sockets (run JSON_parse tr (setupRedisAdapter bus (initial_server env_SERVER_ID t0))))) \<and>
         active_connections (connectionStats (on_connection now sid address query_userId srv)) =
           active_connections (connectionStats srv) +
             (if fst (checkRateLimit now address ''connection'' (userRateLimits srv)) then 1 else 0) \<and>
         (\<not> fst (checkRateLimit now address ''connection'' (userRateLimits srv)) \<longrightarrow>
            connectionStats (on_connection now sid address query_userId srv) = connectionStats srv \<and>
            sockets (on_connection now sid address query_userId srv) = sockets srv) \<and>
         (find_socket sid srv = Some socket \<and> connected socket \<longrightarrow>
            active_connections (connectionStats (step JSON_parse now (Disconnect sid) srv)) =
              active_connections (connectionStats srv) - 1) \<and>
         step JSON_parse later (Disconnect sid) (step JSON_parse now (Disconnect sid) srv) =
           step JSON_parse now (Disconnect sid) srv"
proof -
  let ?srv0 = "setupRedisAdapter bus (initial_server env_SERVER_ID t0)"
  have "sockets ?srv0 = []" "active_connections (connectionStats ?srv0) = 0"
    by (cases bus; simp add: setupRedisAdapter_def initial_server_def)+
  then have "counts_live ?srv0 tr"
    using assms by (simp add: counts_live_def live_sockets_def)
  then have inv: "active_connections (connectionStats (run JSON_parse tr ?srv0))
           = int (length (live_sockets (run JSON_parse tr ?srv0)))"
    by (rule counts_live_run)
  have refused: "connectionStats (on_connection now sid address query_userId srv) = connectionStats srv \<and>
            sockets (on_connection now sid address query_userId srv) = sockets srv"
    if "\<not> fst (checkRateLimit now address ''connection'' (userRateLimits srv))"
    using that by (simp add: on_connection_def Let_def case_prod_beta emit_def)
  have lowered: "active_connections (connectionStats (step JSON_parse now (Disconnect sid) srv)) =
              active_connections (connectionStats srv) - 1"
    if "find_socket sid srv = Some socket \<and> connected socket"
    using that by (simp add: disconnect_signal_def active_on_disconnect)
  have twice: "step JSON_parse later (Disconnect sid) (step JSON_parse now (Disconnect sid) srv) =
           step JSON_parse now (Disconnect sid) srv"
    by (simp add: disconnect_signal_twice)
  show ?thesis
    using inv refused lowered twice active_on_connection[of now sid address query_userId srv]
    by blast
qed

theorem active_connections_counts_live_sockets_witness:
  "distinct (connection_ids
     [(0, Connection ''s1'' ''10.0.0.7'' None), (1, Connection ''s2'' ''10.0.0.7'' None),
      (2, Connection ''s3'' ''10.0.0.7'' None), (3, Connection ''s4'' ''10.0.0.7'' None),
      (4, Connection ''s5'' ''10.0.0.7'' None), (5, Connection ''s6'' ''10.0.0.7'' None),
      (6, Disconnect ''s1''), (7, Disconnect ''s1''), (8, Disconnect ''s6'')]) \<and>
   map sock_id (live_sockets (run Map.empty
     [(0, Connection ''s1'' ''10.0.0.7'' None), (1, Connection ''s2'' ''10.0.0.7'' None),
      (2, Connection ''s3'' ''10.0.0.7'' None), (3, Connection ''s4'' ''10.0.0.7'' None),
      (4, Connection ''s5'' ''10.0.0.7'' None), (5, Connection ''s6'' ''10.0.0.7'' None),
      (6, Disconnect ''s1''), (7, Disconnect ''s1''), (8, Disconnect ''s6'')]
     (setupRedisAdapter Bus_ok (initial_server None 0))))
     = [''s2'', ''s3'', ''s4'', ''s5''] \<and>
   active_connections (connectionStats (run Map.empty
     [(0, Connection ''s1'' ''10.0.0.7'' None), (1, Connection ''s2'' ''10.0.0.7'' None),
      (2, Connection ''s3'' ''10.0.0.7'' None), (3, Connection ''s4'' ''10.0.0.7'' None),
      (4, Connection ''s5'' ''10.0.0.7'' None), (5, Connection ''s6'' ''10.0.0.7'' None),
      (6, Disconnect ''s1''), (7, Disconnect ''s1''), (8, Disconnect ''s6'')]
     (setupRedisAdapter Bus_ok (initial_server None 0)))) = 4"
proof -
  let ?tr = "[(0, Connection ''s1'' ''10.0.0.7'' None), (1, Connection ''s2'' ''10.0.0.7'' None),
      (2, Connection ''s3'' ''10.0.0.7'' None), (3, Connection ''s4'' ''10.0.0.7'' None),
      (4, Connection ''s5'' ''10.0.0.7'' None), (5, Connection ''s6'' ''10.0.0.7'' None),
      (6, Disconnect ''s1''), (7, Disconnect ''s1''), (8, Disconnect ''s6'')]"
  let ?srv = "run Map.empty ?tr (setupRedisAdapter Bus_ok (initial_server None 0))"
  have tr: "distinct (connection_ids ?tr)" by code_simp
  have live: "map sock_id (live_sockets ?srv) = [''s2'', ''s3'', ''s4'', ''s5'']" by code_simp
  have "active_connections (connectionStats ?srv) = int (length (live_sockets ?srv))"
    using active_connections_counts_live_sockets[OF tr, where JSON_parse = Map.empty
        and bus = Bus_ok and env_SERVER_ID = None and ?t0.0 = 0]
    by blast
  also have "\<dots> = int (length (map sock_id (live_sockets ?srv)))" by simp
  also have "\<dots> = 4" unfolding live by simp
  finally show ?thesis using tr live by blast
qed

section \<open>Degraded mode and the recent codes\<close>

lemma flags_emit [simp]:
  "redisConnected (emit sid ev srv) = redisConnected srv"
  "subscribed (emit sid ev srv) = subscribed srv"
  "lRange_pending (emit sid ev srv) = lRange_pending srv"
  by (simp_all add: emit_def)

lemma flags_on_connection:
  "redisConnected (on_connection now sid address q srv) = redisConnected srv"
  "subscribed (on_connection now sid address q srv) = subscribed srv"
  "lRange_pending (on_connection now sid address q srv) = lRange_pending srv"
  by (simp_all add: on_connection_def Let_def case_prod_beta)

lemma flags_on_claim_code:
  "redisConnected (on_claim_code now sid data srv) = redisConnected srv"
  "subscribed (on_claim_code now sid data srv) = subscribed srv"
  "lRange_pending (on_claim_code now sid data srv) = lRange_pending srv"
  by (simp_all add: on_claim_code_def Let_def case_prod_beta broadcast_emit_def split: option.splits)

lemma flags_on_disconnect:
  "redisConnected (on_disconnect sid srv) = redisConnected srv"
  "subscribed (on_disconnect sid srv) = subscribed srv"
  "lRange_pending (on_disconnect sid srv) = lRange_pending srv"
  by (simp_all add: on_disconnect_def Let_def update_socket_def split: option.splits)

lemma flags_disconnect_signal:
  "redisConnected (disconnect_signal sid srv) = redisConnected srv"
  "subscribed (disconnect_signal sid srv) = subscribed srv"
  "lRange_pending (disconnect_signal sid srv) = lRange_pending srv"
  by (simp_all add: disconnect_signal_def flags_on_disconnect split: option.splits)

lemma flags_resume:
  "redisConnected (sendRecentCodes_resume p sid res srv) = redisConnected srv"
  "subscribed (sendRecentCodes_resume p sid res srv) = subscribed srv"
  "lRange_pending (sendRecentCodes_resume p sid res srv) = lRange_pending srv"
  by (simp_all add: sendRecentCodes_resume_def Let_def split: lRange_result.splits option.splits)

lemma flags_on_authenticate:
  "redisConnected (on_authenticate now sid data srv) = redisConnected srv"
  "subscribed (on_authenticate now sid data srv) = subscribed srv"
  by (simp_all add: on_authenticate_def Let_def case_prod_beta update_socket_def sendRecentCodes_def
        split: option.splits)

lemma lRange_pending_on_authenticate_degraded:
  "\<not> redisConnected srv \<Longrightarrow> lRange_pending (on_authenticate now sid data srv) = lRange_pending srv"
  by (simp add: on_authenticate_def Let_def case_prod_beta update_socket_def
        split: option.splits)

lemma redisConnected_step: "redisConnected (step p now i srv) = redisConnected srv"
proof (cases i)
  case (LRange_settled sid res)
  then show ?thesis by (simp add: flags_resume)
qed (simp_all add: flags_on_connection flags_on_authenticate flags_on_claim_code flags_disconnect_signal)

lemma subscribed_step: "subscribed (step p now i srv) = subscribed srv"
proof (cases i)
  case (LRange_settled sid res)
  then show ?thesis by (simp add: flags_resume)
qed (simp_all add: flags_on_connection flags_on_authenticate flags_on_claim_code flags_disconnect_signal)

lemma redisConnected_run: "redisConnected (run p tr srv) = redisConnected srv"
proof (induction tr arbitrary: srv)
  case Nil
  then show ?case by simp
next
  case (Cons a tr)
  obtain now i where "a = (now, i)" by (cases a)
  then show ?case using Cons.IH[of "step p now i srv"] by (simp add: redisConnected_step)
qed

lemma subscribed_run: "subscribed (run p tr srv) = subscribed srv"
proof (induction tr arbitrary: srv)
  case Nil
  then show ?case by simp
next
  case (Cons a tr)
  obtain now i where "a = (now, i)" by (cases a)
  then show ?case using Cons.IH[of "step p now i srv"] by (simp add: subscribed_step)
qed

lemma lRange_pending_step_degraded:
  assumes "\<not> redisConnected srv" and "lRange_pending srv = []"
  shows "lRange_pending (step p now i srv) = []"
proof (cases i)
  case (Authenticate sid data)
  then show ?thesis using assms by (simp add: lRange_pending_on_authenticate_degraded)
next
  case (LRange_settled sid res)
  then show ?thesis using assms by simp
qed (simp_all add: assms flags_on_connection flags_on_claim_code flags_disconnect_signal)

lemma lRange_pending_run_degraded:
  assumes "\<not> redisConnected srv" and "lRange_pending srv = []"
  shows "lRange_pending (run p tr srv) = []"
  using assms
proof (induction tr arbitrary: srv)
  case Nil
  then show ?case by simp
next
  case (Cons a tr)
  obtain now i where a: "a = (now, i)" by (cases a)
  have "\<not> redisConnected (step p now i srv)" using Cons.prems(1) by (simp add: redisConnected_step)
  moreover have "lRange_pending (step p now i srv) = []"
    using Cons.prems by (rule lRange_pending_step_degraded)
  ultimately show ?case using Cons.IH a by simp
qed

text \<open>
  Claim C7. When either bus connection fails at start-up, \<^verbatim>\<open>startServer\<close> still reaches
  \<^verbatim>\<open>server.listen\<close> and exits only if that throws. In every state \<open>srv\<close> the server then
  reaches, \<^verbatim>\<open>redisConnected\<close> is false and \<^verbatim>\<open>/health\<close> reports it, no subscription exists,
  no bus read is ever started, a rejected bus read would be caught, and an accepted claim
  is still broadcast to every other live socket.
\<close>

theorem bus_failure_degrades:
  assumes "bus = Pub_connect_fails \<or> bus = Sub_connect_fails"
    and "srv = run JSON_parse tr (setupRedisAdapter bus (initial_server env_SERVER_ID t0))"
  shows "startServer bus listen_throws (initial_server env_SERVER_ID t0) =
           (if listen_throws then Exited 1 else Listening (initial_server env_SERVER_ID t0)) \<and>
         \<not> redisConnected srv \<and> \<not> subscribed srv \<and>
         redis_connected (health now srv) = False \<and>
         lRange_pending srv = [] \<and>
         sendRecentCodes_resume JSON_parse sid LRange_rejected srv = srv \<and>
         (find_socket sid srv = Some socket \<and> authenticated socket \<and>
          fst (checkRateLimit now (template_string (socket_userId socket)) ''message'' (userRateLimits srv)) \<longrightarrow>
            emitted (on_claim_code now sid data srv) =
              emitted srv @
              (sid, Ev_claim_received (code data) (socket_userId socket) now
                      (case auto_claim data of None \<Rightarrow> False | Some b \<Rightarrow> b)) #
              map (\<lambda>r. (r, Ev_code_claimed (code data) (socket_userId socket) now))
                (broadcast_targets sid srv) \<and>
            set (broadcast_targets sid srv) = {sock_id s | s. s \<in> set (live_sockets srv) \<and> sock_id s \<noteq> sid})"
proof -
  let ?srv0 = "initial_server env_SERVER_ID t0"
  have same0: "setupRedisAdapter bus ?srv0 = ?srv0"
    using assms(1) by (auto simp: setupRedisAdapter_def)
  have start: "startServer bus listen_throws ?srv0 = (if listen_throws then Exited 1 else Listening ?srv0)"
    using same0 by (simp add: startServer_def)
  have flag0: "\<not> redisConnected ?srv0" "\<not> subscribed ?srv0" "lRange_pending ?srv0 = []"
    by (simp_all add: initial_server_def)
  have flag: "\<not> redisConnected srv" "\<not> subscribed srv"
    using flag0 by (simp_all add: assms(2) same0 redisConnected_run subscribed_run)
  have pending: "lRange_pending srv = []"
    unfolding assms(2) same0 using flag0(1,3) by (rule lRange_pending_run_degraded)
  have health: "redis_connected (health now srv) = False"
    using flag(1) by (simp add: health_def)
  have caught: "sendRecentCodes_resume JSON_parse sid LRange_rejected srv = srv"
    by (simp add: sendRecentCodes_resume_def)
  have targets: "set (broadcast_targets sid srv) = {sock_id s | s. s \<in> set (live_sockets srv) \<and> sock_id s \<noteq> sid}"
    by (auto simp: broadcast_targets_def live_sockets_def)
  have local: "find_socket sid srv = Some socket \<and> authenticated socket \<and>
          fst (checkRateLimit now (template_string (socket_userId socket)) ''message'' (userRateLimits srv)) \<longrightarrow>
            emitted (on_claim_code now sid data srv) =
              emitted srv @
              (sid, Ev_claim_received (code data) (socket_userId socket) now
                      (case auto_claim data of None \<Rightarrow> False | Some b \<Rightarrow> b)) #
              map (\<lambda>r. (r, Ev_code_claimed (code data) (socket_userId socket) now))
                (broadcast_targets sid srv) \<and>
            set (broadcast_targets sid srv) = {sock_id s | s. s \<in> set (live_sockets srv) \<and> sock_id s \<noteq> sid}"
    using targets on_claim_code_accepted(1)[of sid srv socket now data] by (intro impI conjI) auto
  from start flag pending health caught local show ?thesis
    by (intro conjI)
qed

theorem bus_failure_degrades_witness:
  "startServer Pub_connect_fails False (initial_server None 0) = Listening (initial_server None 0) \<and>
   redis_connected (health 9
     (run Map.empty
        [(0, Connection ''s1'' ''10.0.0.7'' None), (1, Connection ''s2'' ''10.0.0.8'' None),
         (2, Authenticate ''s1'' \<lparr>username = Some ''alice'', token = None\<rparr>)]
        (setupRedisAdapter Pub_connect_fails (initial_server None 0)))) = False \<and>
   lRange_pending
     (run Map.empty
        [(0, Connection ''s1'' ''10.0.0.7'' None), (1, Connection ''s2'' ''10.0.0.8'' None),
         (2, Authenticate ''s1'' \<lparr>username = Some ''alice'', token = None\<rparr>)]
        (setupRedisAdapter Pub_connect_fails (initial_server None 0))) = [] \<and>
   emitted (on_claim_code 3 ''s1'' \<lparr>code = ''X1'', auto_claim = None\<rparr>
     (run Map.empty
        [(0, Connection ''s1'' ''10.0.0.7'' None), (1, Connection ''s2'' ''10.0.0.8'' None),
         (2, Authenticate ''s1'' \<lparr>username = Some ''alice'', token = None\<rparr>)]
        (setupRedisAdapter Pub_connect_fails (initial_server None 0))))
   = emitted
     (run Map.empty
        [(0, Connection ''s1'' ''10.0.0.7'' None), (1, Connection ''s2'' ''10.0.0.8'' None),
         (2, Authenticate ''s1'' \<lparr>username = Some ''alice'', token = None\<rparr>)]
        (setupRedisAdapter Pub_connect_fails (initial_server None 0)))
     @ [(''s1'', Ev_claim_received ''X1'' (Some ''alice'') 3 False),
        (''s2'', Ev_code_claimed ''X1'' (Some ''alice'') 3)]"
proof -
  let ?tr = "[(0, Connection ''s1'' ''10.0.0.7'' None), (1, Connection ''s2'' ''10.0.0.8'' None),
         (2, Authenticate ''s1'' \<lparr>username = Some ''alice'', token = None\<rparr>)]"
  let ?srv = "run Map.empty ?tr (setupRedisAdapter Pub_connect_fails (initial_server None 0))"
  let ?alice = "\<lparr>sock_id = ''s1'', clientIp = ''10.0.0.7'', userId = ''s1'',
                 socket_userId = Some ''alice'', authenticated = True,
                 rooms = [''user_alice''], connected = True\<rparr>"
  let ?data = "\<lparr>code = ''X1'', auto_claim = None\<rparr>"
  have failed: "Pub_connect_fails = Pub_connect_fails \<or> Pub_connect_fails = Sub_connect_fails" by simp
  have found: "find_socket ''s1'' ?srv = Some ?alice" by code_simp
  have auth: "authenticated ?alice" by simp
  have ok: "fst (checkRateLimit 3 (template_string (socket_userId ?alice)) ''message'' (userRateLimits ?srv))"
    by code_simp
  have targets: "broadcast_targets ''s1'' ?srv = [''s2'']" by code_simp
  note degraded = bus_failure_degrades[OF failed refl, where JSON_parse = Map.empty and tr = ?tr
        and env_SERVER_ID = None and ?t0.0 = 0 and sid = "''s1''" and socket = ?alice]
  have start: "startServer Pub_connect_fails False (initial_server None 0) = Listening (initial_server None 0)"
    using degraded[where listen_throws = False] by simp
  have health: "redis_connected (health 9 ?srv) = False"
    using degraded[where now = 9] by blast
  have pending: "lRange_pending ?srv = []"
    using degraded by blast
  have "emitted (on_claim_code 3 ''s1'' ?data ?srv) =
              emitted ?srv @
              (''s1'', Ev_claim_received (code ?data) (socket_userId ?alice) 3
                      (case auto_claim ?data of None \<Rightarrow> False | Some b \<Rightarrow> b)) #
              map (\<lambda>r. (r, Ev_code_claimed (code ?data) (socket_userId ?alice) 3))
                (broadcast_targets ''s1'' ?srv)"
    using degraded[where now = 3 and data = ?data] found auth ok by blast
  then have claim: "emitted (on_claim_code 3 ''s1'' ?data ?srv) =
     emitted ?srv @ [(''s1'', Ev_claim_received ''X1'' (Some ''alice'') 3 False),
        (''s2'', Ev_code_claimed ''X1'' (Some ''alice'') 3)]"
    unfolding targets by simp
  from start health pending claim show ?thesis by (intro conjI)
qed













end
